theory Spec2Isabelle
  imports Complex_Main "HOL-Library.List_Lexorder" "HOL-Library.Char_ord"
    "HOL-Library.Product_Lexorder" "HOL-Library.Multiset"
begin

chapter \<open>The model of \<open>inspector.py\<close>\<close>

section \<open>Python values used by \<open>pyatoa.core.seisflows.inspector\<close>\<close>

text \<open>
  The exceptions the Inspector's code can raise.  Python floats are modelled by
  \<^typ>\<open>real\<close> (rounding is not modelled), Python ints by \<^typ>\<open>int\<close> and
  \<^typ>\<open>nat\<close> (lengths and counters).
\<close>

datatype py_error =
  KeyError | IndexError | TypeError | ValueError | ZeroDivisionError
  | AssertionError | UnboundLocalError | OSError

text \<open>
  A Python \<open>dict\<close> keeps its keys in insertion order and holds every key once: it is
  an association list.  \<open>d[k]\<close> raises \<open>KeyError\<close> on a missing key, \<open>d[k] = v\<close>
  overwrites in place or appends, \<open>del d[k]\<close> raises \<open>KeyError\<close> on a missing key.
\<close>

type_synonym ('k, 'v) dict = "('k \<times> 'v) list"

definition keys :: "('k, 'v) dict \<Rightarrow> 'k list" where
  "keys d = map fst d"

definition getitem :: "('k, 'v) dict \<Rightarrow> 'k \<Rightarrow> py_error + 'v" where
  "getitem d k = (case map_of d k of None \<Rightarrow> Inl KeyError | Some v \<Rightarrow> Inr v)"

definition setitem :: "('k, 'v) dict \<Rightarrow> 'k \<Rightarrow> 'v \<Rightarrow> ('k, 'v) dict" where
  "setitem d k v =
     (if k \<in> set (keys d) then map (\<lambda>(k', v'). if k' = k then (k', v) else (k', v')) d
      else d @ [(k, v)])"

definition delitem :: "('k, 'v) dict \<Rightarrow> 'k \<Rightarrow> py_error + ('k, 'v) dict" where
  "delitem d k =
     (if k \<in> set (keys d) then Inr (filter (\<lambda>(k', v'). k' \<noteq> k) d) else Inl KeyError)"

text \<open>
  A \<open>for\<close> loop over a list that updates local variables \<open>s\<close> and may raise: the
  first exception ends the loop.
\<close>

fun for_loop :: "('a \<Rightarrow> 's \<Rightarrow> py_error + 's) \<Rightarrow> 'a list \<Rightarrow> 's \<Rightarrow> py_error + 's" where
  "for_loop body [] s = Inr s"
| "for_loop body (x # xs) s =
     (case body x s of Inl e \<Rightarrow> Inl e | Inr s' \<Rightarrow> for_loop body xs s')"

section \<open>The Inspector's data\<close>

text \<open>\<open>{"msft": ..., "nwin": ...}\<close>, one per (event, model, step, station).\<close>

record misfit_rec =
  msft :: real
  nwin :: int

text \<open>The seven parallel lists kept per (event, model, step, station, channel).\<close>

record window_rec =
  cc_shift_sec :: "real list"
  dlna :: "real list"
  weight :: "real list"
  max_cc :: "real list"
  length_s :: "real list"
  rel_start :: "real list"
  rel_end :: "real list"

text \<open>
  A value stored under a key of a \<open>srcrcv\<close> entry: a number (\<open>lat\<close>, \<open>lon\<close>,
  \<open>depth_m\<close>, \<open>mag\<close>, \<open>utm_x\<close>, \<open>utm_y\<close>, \<open>elv_m\<close>), a string (\<open>time\<close>), or the
  sub-dictionary \<open>{"dist_km": ..., "baz": ...}\<close> stored under a station id.
\<close>

datatype sr_value = Num real | Str string | Link real real

type_synonym sta_misfits = "(string, misfit_rec) dict"
type_synonym misfits_t = "(string, (string, (string, sta_misfits) dict) dict) dict"
type_synonym sta_windows = "(string, (string, window_rec) dict) dict"
type_synonym windows_t = "(string, (string, (string, sta_windows) dict) dict) dict"
type_synonym srcrcv_t = "(string, (string, sr_value) dict) dict"

text \<open>
  The attributes set by \<open>Inspector.__init__\<close>.  The attributes \<open>_stations\<close>,
  \<open>_events\<close>, \<open>_models\<close>, \<open>_steps\<close> start as \<open>None\<close>; they are read through the
  properties \<open>stations\<close>, \<open>events\<close>, \<open>models\<close>, \<open>steps\<close>.
\<close>

record inspector =
  srcrcv :: srcrcv_t
  misfits :: misfits_t
  windows :: windows_t
  utm :: int
  stations :: "string list option"
  events :: "string list option"
  models :: "string list option"
  steps :: "(string, string list) dict option"
  iterations :: nat

definition Inspector :: "int \<Rightarrow> inspector" where
  "Inspector utm_zone =
     \<lparr>srcrcv = [], misfits = [], windows = [], utm = utm_zone, stations = None,
      events = None, models = None, steps = None, iterations = 0\<rparr>"

section \<open>\<open>Inspector.misfit_values\<close>\<close>

text \<open>
  \<^verbatim>\<open>
  misfit = []
  for event in self.misfits:
      for model_ in self.misfits[event]:
          if model_ != model: continue
          for step_ in self.misfits[event][model][step]:
              if step_ != step: continue
              for sta in self.misfits[event][model][step]:
                  misfit.append(self.misfits[event][model][step][sta]["msft"])
  return misfit
  \<close>
  The third loop runs over the keys of the step-level mapping, which are station ids.
\<close>

definition misfit_values :: "inspector \<Rightarrow> string \<Rightarrow> string \<Rightarrow> py_error + real list" where
  "misfit_values self model step =
     for_loop (\<lambda>(event, by_model) misfit.
       for_loop (\<lambda>(model', by_step) misfit.
         if model' \<noteq> model then Inr misfit
         else (case getitem by_step step of
                 Inl e \<Rightarrow> Inl e
               | Inr by_sta \<Rightarrow>
                   for_loop (\<lambda>(step', stas) misfit.
                     if step' \<noteq> step then Inr misfit
                     else for_loop (\<lambda>(sta, r) misfit. Inr (misfit @ [msft r])) by_sta misfit)
                   by_sta misfit))
         by_model misfit)
       (misfits self) []"

text \<open>No station key of any step-level mapping equals \<open>step\<close>.\<close>

definition no_station_named :: "inspector \<Rightarrow> string \<Rightarrow> bool" where
  "no_station_named self step =
     (\<forall>(event, by_model) \<in> set (misfits self). \<forall>(model', by_step) \<in> set by_model.
        \<forall>(step', by_sta) \<in> set by_step. step \<notin> set (keys by_sta))"

text \<open>Every event that holds \<open>model\<close> holds \<open>step\<close> under it: the lookup does not raise.\<close>

definition step_present :: "inspector \<Rightarrow> string \<Rightarrow> string \<Rightarrow> bool" where
  "step_present self model step =
     (\<forall>(event, by_model) \<in> set (misfits self). \<forall>(model', by_step) \<in> set by_model.
        model' = model \<longrightarrow> step \<in> set (keys by_step))"

section \<open>\<open>Inspector.sort_by_model\<close>\<close>

text \<open>
  \<^verbatim>\<open>
  assert(choice in ["misfits", "windows"])
  if choice == "misfits": d = self.misfits
  elif choice == "windows": d = self.windows
  return {m: {s: {e: d[e][m][s] for e in d if m in d[e]}
              for s in self.steps[m]}
          for m in self.models}
  \<close>
  A dictionary comprehension stores the value computed for each key in turn and stops
  at the first exception.
\<close>

definition dict_comp :: "('k \<Rightarrow> py_error + 'v) \<Rightarrow> 'k list \<Rightarrow> py_error + ('k, 'v) dict" where
  "dict_comp f ks =
     for_loop (\<lambda>k acc. case f k of Inl err \<Rightarrow> Inl err | Inr v \<Rightarrow> Inr (setitem acc k v)) ks []"

text \<open>\<open>{e: d[e][m][s] for e in d if m in d[e]}\<close>\<close>

definition events_of ::
  "(string, (string, (string, 'a) dict) dict) dict \<Rightarrow> string \<Rightarrow> string \<Rightarrow>
   py_error + (string, 'a) dict" where
  "events_of d m s =
     for_loop (\<lambda>(e, by_model) acc.
       if m \<in> set (keys by_model)
       then (case getitem by_model m of
               Inl err \<Rightarrow> Inl err
             | Inr by_step \<Rightarrow>
                 (case getitem by_step s of
                    Inl err \<Rightarrow> Inl err
                  | Inr v \<Rightarrow> Inr (setitem acc e v)))
       else Inr acc) d []"

text \<open>
  The comprehension for the record family \<open>d\<close>.  Iterating \<open>self.models\<close> while it is
  \<open>None\<close>, or subscripting \<open>self.steps\<close> while it is \<open>None\<close>, raises \<open>TypeError\<close>.
\<close>

definition sort_by_model_of ::
  "inspector \<Rightarrow> (string, (string, (string, 'a) dict) dict) dict \<Rightarrow>
   py_error + (string, (string, (string, 'a) dict) dict) dict" where
  "sort_by_model_of self d =
     (case models self of
        None \<Rightarrow> Inl TypeError
      | Some ms \<Rightarrow>
          dict_comp (\<lambda>m.
            case steps self of
              None \<Rightarrow> Inl TypeError
            | Some st \<Rightarrow>
                (case getitem st m of
                   Inl err \<Rightarrow> Inl err
                 | Inr ss \<Rightarrow> dict_comp (\<lambda>s. events_of d m s) ss)) ms)"

datatype by_model =
  Misfits "(string, (string, (string, sta_misfits) dict) dict) dict"
  | Windows "(string, (string, (string, sta_windows) dict) dict) dict"

definition sort_by_model :: "inspector \<Rightarrow> string \<Rightarrow> py_error + by_model" where
  "sort_by_model self choice =
     (if choice \<notin> set [''misfits'', ''windows''] then Inl AssertionError
      else if choice = ''misfits''
      then (case sort_by_model_of self (misfits self) of
              Inl err \<Rightarrow> Inl err | Inr r \<Rightarrow> Inr (Misfits r))
      else (case sort_by_model_of self (windows self) of
              Inl err \<Rightarrow> Inl err | Inr r \<Rightarrow> Inr (Windows r)))"

section \<open>\<open>Inspector.measurements\<close>\<close>

text \<open>
  \<open>_get_str\<close> formats \<open>len(self._events)\<close>, \<open>len(self._stations)\<close> and
  \<open>len(self._models)\<close>; \<open>len(None)\<close> raises \<open>TypeError\<close>.  The string it caches is
  not part of the model.
\<close>

definition get_str :: "inspector \<Rightarrow> py_error + unit" where
  "get_str self =
     (case events self of
        None \<Rightarrow> Inl TypeError
      | Some es \<Rightarrow>
          (case stations self of
             None \<Rightarrow> Inl TypeError
           | Some ss \<Rightarrow> (case models self of None \<Rightarrow> Inl TypeError | Some ms \<Rightarrow> Inr ())))"

text \<open>\<open>d[m][s] += x\<close> on a two-level dictionary.\<close>

definition iadd2 ::
  "(string, (string, 'a::plus) dict) dict \<Rightarrow> string \<Rightarrow> string \<Rightarrow> 'a \<Rightarrow>
   py_error + (string, (string, 'a) dict) dict" where
  "iadd2 d m s x =
     (case getitem d m of
        Inl err \<Rightarrow> Inl err
      | Inr inner \<Rightarrow>
          (case getitem inner s of
             Inl err \<Rightarrow> Inl err
           | Inr v \<Rightarrow> Inr (setitem d m (setitem inner s (v + x)))))"

text \<open>\<open>{m: {s: 0 for s in windows[m]} for m in windows}\<close>, over the keys of dictionaries.\<close>

definition zeros ::
  "(string, (string, 'b) dict) dict \<Rightarrow> (string, (string, 'a::zero) dict) dict" where
  "zeros w = map (\<lambda>(m, by_step). (m, map (\<lambda>(s, v). (s, 0)) by_step)) w"

text \<open>
  \<^verbatim>\<open>
  for model in windows:
      for step in windows[model]:
          for event in windows[model][step]:
              for sta in windows[model][step][event]:
                  for cha in windows[model][step][event][sta]:
                      w_ = windows[model][step][event][sta][cha]
                      number_of_windows[model][step] += len(w_["dlna"])
                      for length in w_["length_s"]:
                          cumulative_window_length[model][step] += length
  \<close>
  The state of the loops is the pair
  \<open>(cumulative_window_length, number_of_windows)\<close>.  The call
  \<open>self.sort_by_model("windows")\<close> passes the assertion and selects \<open>self.windows\<close>:
  it is \<open>sort_by_model_of self (windows self)\<close>.
\<close>

type_synonym totals = "(string, (string, real) dict) dict \<times> (string, (string, nat) dict) dict"

definition measure_channel :: "string \<Rightarrow> string \<Rightarrow> window_rec \<Rightarrow> totals \<Rightarrow> py_error + totals" where
  "measure_channel model step w' = (\<lambda>(cwl, now).
     case iadd2 now model step (length (dlna w')) of
       Inl err \<Rightarrow> Inl err
     | Inr now' \<Rightarrow>
         (case for_loop (\<lambda>len cwl. iadd2 cwl model step len) (length_s w') cwl of
            Inl err \<Rightarrow> Inl err
          | Inr cwl' \<Rightarrow> Inr (cwl', now')))"

definition measure_step ::
  "string \<Rightarrow> string \<Rightarrow> (string, sta_windows) dict \<Rightarrow> totals \<Rightarrow> py_error + totals" where
  "measure_step model step by_event =
     for_loop (\<lambda>(event, by_sta).
       for_loop (\<lambda>(sta, by_cha).
         for_loop (\<lambda>(cha, w'). measure_channel model step w') by_cha) by_sta) by_event"

datatype measured =
  Cumulative_window_length "(string, (string, real) dict) dict"
  | Number_of_windows "(string, (string, nat) dict) dict"

definition measurements :: "inspector \<Rightarrow> string \<Rightarrow> py_error + measured" where
  "measurements self choice =
     (if choice \<notin> set [''cum_win_len'', ''num_windows''] then Inl AssertionError
      else case get_str self of
        Inl err \<Rightarrow> Inl err
      | Inr u \<Rightarrow>
          (case sort_by_model_of self (windows self) of
             Inl err \<Rightarrow> Inl err
           | Inr w \<Rightarrow>
               (case for_loop (\<lambda>(model, by_step).
                       for_loop (\<lambda>(step, by_event). measure_step model step by_event) by_step)
                     w (zeros w, zeros w) of
                  Inl err \<Rightarrow> Inl err
                | Inr (cwl, now) \<Rightarrow>
                    if choice = ''cum_win_len'' then Inr (Cumulative_window_length cwl)
                    else Inr (Number_of_windows now))))"

section \<open>\<open>Inspector.sum_misfits\<close>\<close>

text \<open>
  \<^verbatim>\<open>
  misfits = self.sort_by_model("misfits")
  cmsft = {key: {step: 0 for step in misfits[key]} for key in misfits}
  for model in misfits:
      for step in misfits[model]:
          total_misfit = 0
          for e, event in enumerate(misfits[model][step]):
              ev_msft = 0
              for sta in misfits[model][step][event]:
                  ev_msft += misfits[model][step][event][sta]["msft"]
              total_misfit += ev_msft
          cmsft[model][step] = total_misfit / (e + 1)
  return cmsft
  \<close>
  The loop variable \<open>e\<close> keeps its last value after the loop over the events, also
  into the next (model, step); it is unbound until the first event of the first
  non-empty view.  The state of the two outer loops is \<open>(cmsft, e)\<close>.
\<close>

definition ev_msft :: "sta_misfits \<Rightarrow> real" where
  "ev_msft by_sta = foldl (\<lambda>acc (sta, r). acc + msft r) 0 by_sta"

text \<open>The loop over \<open>enumerate(misfits[model][step])\<close>, on the state \<open>(total_misfit, e)\<close>.\<close>

definition total_misfit ::
  "(string, sta_misfits) dict \<Rightarrow> real \<times> nat option \<Rightarrow> real \<times> nat option" where
  "total_misfit by_event = (\<lambda>(tot, e).
     foldl (\<lambda>(tot, e) (i, (event, by_sta)). (tot + ev_msft by_sta, Some i))
       (tot, e) (enumerate 0 by_event))"

text \<open>\<open>d[m][s] = v\<close> on a two-level dictionary.\<close>

definition setitem2 ::
  "(string, (string, 'a) dict) dict \<Rightarrow> string \<Rightarrow> string \<Rightarrow> 'a \<Rightarrow>
   py_error + (string, (string, 'a) dict) dict" where
  "setitem2 d m s v =
     (case getitem d m of
        Inl err \<Rightarrow> Inl err
      | Inr inner \<Rightarrow> Inr (setitem d m (setitem inner s v)))"

definition sum_step ::
  "string \<Rightarrow> string \<Rightarrow> (string, sta_misfits) dict \<Rightarrow>
   (string, (string, real) dict) dict \<times> nat option \<Rightarrow>
   py_error + (string, (string, real) dict) dict \<times> nat option" where
  "sum_step model step by_event = (\<lambda>(cmsft, e).
     case total_misfit by_event (0, e) of
       (tot, None) \<Rightarrow> Inl UnboundLocalError
     | (tot, Some e') \<Rightarrow>
         (case setitem2 cmsft model step (tot / real (e' + 1)) of
            Inl err \<Rightarrow> Inl err
          | Inr cmsft' \<Rightarrow> Inr (cmsft', Some e')))"

definition sum_misfits :: "inspector \<Rightarrow> py_error + (string, (string, real) dict) dict" where
  "sum_misfits self =
     (case sort_by_model_of self (misfits self) of
        Inl err \<Rightarrow> Inl err
      | Inr ms \<Rightarrow>
          (case for_loop (\<lambda>(model, by_step).
                  for_loop (\<lambda>(step, by_event). sum_step model step by_event) by_step)
                ms (zeros ms, None) of
             Inl err \<Rightarrow> Inl err
           | Inr (cmsft, e) \<Rightarrow> Inr cmsft))"

section \<open>\<open>Inspector.sort_by_window\<close>\<close>





section \<open>Notions used to state the properties\<close>

text \<open>
  \<open>upd d k f\<close> replaces the value \<open>v\<close> stored under \<open>k\<close> by \<open>f v\<close>, and \<open>upd2\<close> does
  so under a pair of keys of a two-level dictionary.  The \<open>shape\<close> of a two-level
  dictionary is its keys at both levels.
\<close>

definition upd :: "('k, 'v) dict \<Rightarrow> 'k \<Rightarrow> ('v \<Rightarrow> 'v) \<Rightarrow> ('k, 'v) dict" where
  "upd d k f = map (\<lambda>(k', v). if k' = k then (k', f v) else (k', v)) d"

definition upd2 ::
  "('k, ('j, 'v) dict) dict \<Rightarrow> 'k \<Rightarrow> 'j \<Rightarrow> ('v \<Rightarrow> 'v) \<Rightarrow> ('k, ('j, 'v) dict) dict" where
  "upd2 d m s f = upd d m (\<lambda>inner. upd inner s f)"

definition shape :: "('k, ('j, 'v) dict) dict \<Rightarrow> ('k \<times> 'j list) list" where
  "shape d = map (\<lambda>(m, inner). (m, keys inner)) d"

definition wf_shape :: "('k \<times> 'j list) list \<Rightarrow> bool" where
  "wf_shape sh = (distinct (map fst sh) \<and> (\<forall>(m, ks) \<in> set sh. distinct ks))"

definition in_shape :: "('k \<times> 'j list) list \<Rightarrow> 'k \<Rightarrow> 'j \<Rightarrow> bool" where
  "in_shape sh m s = (\<exists>(m', ks) \<in> set sh. m' = m \<and> s \<in> set ks)"

text \<open>
  The model-major view as the specification words it: a model maps to its steps, a
  step to the events that contributed records there, and an event that contributed
  none does not appear.
\<close>

definition slice ::
  "(string, (string, (string, 'a) dict) dict) dict \<Rightarrow> string \<Rightarrow> string \<Rightarrow> (string, 'a) dict" where
  "slice d m s =
     List.map_filter (\<lambda>(e, by_model).
       case map_of by_model m of
         None \<Rightarrow> None
       | Some by_step \<Rightarrow> (case map_of by_step s of None \<Rightarrow> None | Some v \<Rightarrow> Some (e, v))) d"

definition reindex_by_model ::
  "string list \<Rightarrow> (string, string list) dict \<Rightarrow> (string, (string, (string, 'a) dict) dict) dict \<Rightarrow>
   (string, (string, (string, 'a) dict) dict) dict" where
  "reindex_by_model ms st d =
     map (\<lambda>m. (m, map (\<lambda>s. (s, slice d m s))
                   (case map_of st m of None \<Rightarrow> [] | Some ss \<Rightarrow> ss))) ms"

text \<open>
  The axis metadata lists the models \<open>ms\<close> and, for each of them, its steps in \<open>st\<close>,
  without repetition (they are lists of dictionary keys).
\<close>

definition axes_known :: "inspector \<Rightarrow> string list \<Rightarrow> (string, string list) dict \<Rightarrow> bool" where
  "axes_known self ms st =
     (models self = Some ms \<and> steps self = Some st \<and> distinct ms \<and>
      (\<forall>m \<in> set ms. case map_of st m of None \<Rightarrow> False | Some ss \<Rightarrow> distinct ss))"

text \<open>Every event that holds a listed model holds each step listed for that model.\<close>

definition steps_covered ::
  "string list \<Rightarrow> (string, string list) dict \<Rightarrow> (string, (string, (string, 'a) dict) dict) dict \<Rightarrow> bool" where
  "steps_covered ms st d =
     (\<forall>(e, by_model) \<in> set d. \<forall>m \<in> set ms.
        case map_of by_model m of
          None \<Rightarrow> True
        | Some by_step \<Rightarrow>
            (case map_of st m of None \<Rightarrow> True | Some ss \<Rightarrow> set ss \<subseteq> set (keys by_step)))"


text \<open>In each listed (model, step) view the events are exactly those that hold the model.\<close>

definition omits_events_lacking ::
  "string list \<Rightarrow> (string, string list) dict \<Rightarrow> (string, (string, (string, 'a) dict) dict) dict \<Rightarrow> bool" where
  "omits_events_lacking ms st d =
     (\<forall>m \<in> set ms. \<forall>s \<in> set (case map_of st m of None \<Rightarrow> [] | Some ss \<Rightarrow> ss).
        keys (slice d m s) = keys (filter (\<lambda>(e, by_model). m \<in> set (keys by_model)) d))"

section \<open>\<open>Inspector._get_info\<close>\<close>

text \<open>
  \<^verbatim>\<open>
  events, stations = [], []
  for key in self.srcrcv.keys():
      if "." in key: stations.append(key)
      else: events.append(key)
  self._stations = stations
  self._events = events
  _event = list(self.misfits.keys())[0]
  models = list(self.misfits[_event].keys())
  steps = {m: [s for s in self.misfits[_event][m].keys()] for m in models}
  iterations = 0
  for m in models:
      iterations += len(steps[m])
  self._models = models
  self._steps = steps
  self._iterations = iterations
  \<close>
  A method that assigns to attributes of \<open>self\<close> returns the new state, or the
  exception together with the state reached when it was raised.  With no event in
  \<open>self.misfits\<close> the index \<open>[0]\<close> raises \<open>IndexError\<close>, after \<open>_stations\<close> and
  \<open>_events\<close> were assigned.
\<close>

definition get_info :: "inspector \<Rightarrow> py_error \<times> inspector + inspector" where
  "get_info self =
     (let stations' = filter (\<lambda>key. CHR ''.'' \<in> set key) (keys (srcrcv self));
          events' = filter (\<lambda>key. CHR ''.'' \<notin> set key) (keys (srcrcv self));
          self1 = self\<lparr>stations := Some stations', events := Some events'\<rparr>
      in case misfits self1 of
           [] \<Rightarrow> Inl (IndexError, self1)
         | (event, by_model) # rest \<Rightarrow>
             (let models' = keys by_model;
                  steps' = map (\<lambda>(m, by_step). (m, keys by_step)) by_model;
                  iterations' = foldl (\<lambda>n (m, ss). n + length ss) 0 steps'
              in Inr (self1\<lparr>models := Some models', steps := Some steps',
                            iterations := iterations'\<rparr>)))"


section \<open>Example states\<close>

text \<open>
  Two events; \<open>e2\<close> has no records for model \<open>m01\<close>.  The axis metadata is what
  \<open>_get_info\<close> derives from the first event.
\<close>

definition one_window :: "real \<Rightarrow> window_rec" where
  "one_window x =
     \<lparr>cc_shift_sec = [x], dlna = [x], weight = [x], max_cc = [x], length_s = [x],
      rel_start = [x], rel_end = [x]\<rparr>"

definition missing_model_index :: inspector where
  "missing_model_index = Inspector (-60)
     \<lparr>misfits :=
        [(''e1'', [(''m00'', [(''s00'', [(''NZ.BFZ'', \<lparr>msft = 1, nwin = 2\<rparr>)])]),
                  (''m01'', [(''s00'', [(''NZ.BFZ'', \<lparr>msft = 2, nwin = 2\<rparr>)])])]),
         (''e2'', [(''m00'', [(''s00'', [(''NZ.BFZ'', \<lparr>msft = 3, nwin = 1\<rparr>)])])])],
      windows :=
        [(''e1'', [(''m00'', [(''s00'', [(''NZ.BFZ'', [(''HHZ'', one_window 1)])])]),
                  (''m01'', [(''s00'', [(''NZ.BFZ'', [(''HHZ'', one_window 2)])])])]),
         (''e2'', [(''m00'', [(''s00'', [(''NZ.BFZ'', [(''HHZ'', one_window 3)])])])])]\<rparr>"

text \<open>Two events; \<open>e2\<close> has model \<open>m00\<close> but not its step \<open>s01\<close>.\<close>

definition missing_step_index :: inspector where
  "missing_step_index = Inspector (-60)
     \<lparr>misfits :=
        [(''e1'', [(''m00'', [(''s00'', [(''NZ.BFZ'', \<lparr>msft = 1, nwin = 2\<rparr>)]),
                             (''s01'', [(''NZ.BFZ'', \<lparr>msft = 2, nwin = 2\<rparr>)])])]),
         (''e2'', [(''m00'', [(''s00'', [(''NZ.BFZ'', \<lparr>msft = 3, nwin = 1\<rparr>)])])])]\<rparr>"

section \<open>The datasets read by \<open>append\<close>\<close>

text \<open>
  What the Inspector reads from one \<open>pyasdf.ASDFDataSet\<close>: the events with their
  preferred origin and magnitude, the station coordinates, and the auxiliary data
  \<open>AdjointSources\<close> and \<open>MisfitWindows\<close>, each a model \<open>\<rightarrow>\<close> step hierarchy of records
  with their \<open>parameters\<close>.
\<close>

record adjoint_source =
  station_id :: string
  misfit_value :: real

record misfit_window =
  channel_id :: string
  dlnA :: real
  window_weight :: real
  max_cc_value :: real
  relative_starttime :: real
  relative_endtime :: real
  cc_shift_in_seconds :: real

record event_origin =
  latitude :: real
  longitude :: real
  depth :: real
  origin_time :: string
  mag :: real

record station_coordinates =
  sta_latitude :: real
  sta_longitude :: real
  elevation_in_m :: real

record dataset =
  ds_events :: "event_origin list"
  all_coordinates :: "(string, station_coordinates) dict"
  AdjointSources :: "(string, (string, adjoint_source list) dict) dict"
  MisfitWindows :: "(string, (string, misfit_window list) dict) dict"

text \<open>
  The functions imported from outside \<open>inspector.py\<close>: opening a dataset
  (\<open>pyasdf.ASDFDataSet\<close>), \<open>pyatoa.utils.form.event_id\<close>,
  \<open>pyatoa.utils.srcrcv.lonlat_utm\<close>, \<open>obspy.geodetics.gps2dist_azimuth\<close> and
  \<open>pyatoa.utils.asdf.extractions.count_misfit_windows\<close> (called with
  \<open>count_by_stations=True\<close>: a dictionary from station id to window count).  They are
  parameters of the model.
\<close>

record env =
  ASDFDataSet :: "string \<Rightarrow> py_error + dataset"
  event_id :: "dataset \<Rightarrow> string"
  lonlat_utm :: "real \<Rightarrow> real \<Rightarrow> int \<Rightarrow> real \<times> real"
  gps2dist_azimuth :: "real \<Rightarrow> real \<Rightarrow> real \<Rightarrow> real \<Rightarrow> real \<times> real \<times> real"
  count_misfit_windows :: "dataset \<Rightarrow> string \<Rightarrow> string \<Rightarrow> py_error + (string, int) dict"

text \<open>
  A loop whose body mutates an object in place: an exception leaves the object as
  it was when raised.  \<open>write_back put\<close> writes the object back into what holds it.
\<close>

fun for_loop_st ::
  "('a \<Rightarrow> 's \<Rightarrow> py_error \<times> 's + 's) \<Rightarrow> 'a list \<Rightarrow> 's \<Rightarrow> py_error \<times> 's + 's" where
  "for_loop_st body [] s = Inr s"
| "for_loop_st body (x # xs) s =
     (case body x s of Inl (e, s') \<Rightarrow> Inl (e, s') | Inr s' \<Rightarrow> for_loop_st body xs s')"

definition write_back :: "('s \<Rightarrow> 't) \<Rightarrow> py_error \<times> 's + 's \<Rightarrow> py_error \<times> 't + 't" where
  "write_back put r = (case r of Inl (e, s) \<Rightarrow> Inl (e, put s) | Inr s \<Rightarrow> Inr (put s))"

section \<open>\<open>Inspector.get_misfits\<close>\<close>

text \<open>
  \<^verbatim>\<open>
  eid = event_id(ds=ds)
  self.misfits[eid] = {}
  for model in ds.auxiliary_data.AdjointSources.list():
      self.misfits[eid][model] = {}
      for step in ds.auxiliary_data.AdjointSources[model].list():
          self.misfits[eid][model][step] = {}
          num_win = count_misfit_windows(ds, model, step, count_by_stations=True)
          for station in ds.auxiliary_data.AdjointSources[model][step]:
              sta_id = station.parameters["station_id"]
              misfit = station.parameters["misfit_value"]
              if sta_id not in self.misfits[eid][model][step]:
                  self.misfits[eid][model][step][sta_id] = {
                      "msft": 0, "nwin": num_win[sta_id]}
              self.misfits[eid][model][step][sta_id]["msft"] += misfit
          for sta_id in self.misfits[eid][model][step].keys():
              self.misfits[eid][model][step][sta_id]["msft"] /= \
                  2 * self.misfits[eid][model][step][sta_id]["nwin"]
  \<close>
  \<open>add_station\<close> is the body of the loop over the records, \<open>scale_station\<close> the body
  of the scaling loop, both on the dictionary \<open>self.misfits[eid][model][step]\<close>.
\<close>

definition add_station ::
  "(string, int) dict \<Rightarrow> adjoint_source \<Rightarrow> sta_misfits \<Rightarrow> py_error \<times> sta_misfits + sta_misfits" where
  "add_station num_win station by_sta =
     (let sta_id = station_id station; misfit = misfit_value station in
      case (if sta_id \<notin> set (keys by_sta)
            then (case getitem num_win sta_id of
                    Inl err \<Rightarrow> Inl (err, by_sta)
                  | Inr n \<Rightarrow> Inr (setitem by_sta sta_id \<lparr>msft = 0, nwin = n\<rparr>))
            else Inr by_sta) of
        Inl x \<Rightarrow> Inl x
      | Inr by_sta' \<Rightarrow>
          (case getitem by_sta' sta_id of
             Inl err \<Rightarrow> Inl (err, by_sta')
           | Inr r \<Rightarrow> Inr (setitem by_sta' sta_id (r\<lparr>msft := msft r + misfit\<rparr>))))"

definition scale_station :: "string \<Rightarrow> sta_misfits \<Rightarrow> py_error \<times> sta_misfits + sta_misfits" where
  "scale_station sta_id by_sta =
     (case getitem by_sta sta_id of
        Inl err \<Rightarrow> Inl (err, by_sta)
      | Inr r \<Rightarrow>
          if 2 * nwin r = 0 then Inl (ZeroDivisionError, by_sta)
          else Inr (setitem by_sta sta_id (r\<lparr>msft := msft r / real_of_int (2 * nwin r)\<rparr>)))"

definition step_misfits ::
  "env \<Rightarrow> dataset \<Rightarrow> string \<Rightarrow> string \<Rightarrow> adjoint_source list \<Rightarrow>
   py_error \<times> sta_misfits + sta_misfits" where
  "step_misfits ext ds model step records =
     (case count_misfit_windows ext ds model step of
        Inl err \<Rightarrow> Inl (err, [])
      | Inr num_win \<Rightarrow>
          (case for_loop_st (add_station num_win) records [] of
             Inl x \<Rightarrow> Inl x
           | Inr by_sta \<Rightarrow> for_loop_st scale_station (keys by_sta) by_sta))"

definition get_misfits :: "env \<Rightarrow> inspector \<Rightarrow> dataset \<Rightarrow> py_error \<times> inspector + inspector" where
  "get_misfits ext self ds =
     (let eid = event_id ext ds in
      write_back (\<lambda>by_model. self\<lparr>misfits := setitem (misfits self) eid by_model\<rparr>)
        (for_loop_st (\<lambda>(model, by_step_ds) by_model.
           write_back (setitem by_model model)
             (for_loop_st (\<lambda>(step, records) by_step.
                write_back (setitem by_step step) (step_misfits ext ds model step records))
              by_step_ds []))
         (AdjointSources ds) []))"

text \<open>A step that may raise inside such a loop: the exception carries the object \<open>s\<close>.\<close>

definition or_raise ::
  "py_error + 'a \<Rightarrow> 's \<Rightarrow> ('a \<Rightarrow> py_error \<times> 's + 's) \<Rightarrow> py_error \<times> 's + 's" where
  "or_raise r s k = (case r of Inl err \<Rightarrow> Inl (err, s) | Inr v \<Rightarrow> k v)"

section \<open>\<open>Inspector.get_windows\<close>\<close>

text \<open>\<open>str.split\<close> on a one-character separator.\<close>

fun str_split :: "char \<Rightarrow> string \<Rightarrow> string list" where
  "str_split c [] = [[]]"
| "str_split c (x # xs) =
     (if x = c then [] # str_split c xs
      else (case str_split c xs of [] \<Rightarrow> [[x]] | w # ws \<Rightarrow> (x # w) # ws))"

text \<open>
  \<^verbatim>\<open>
  eid = event_id(ds=ds)
  self.windows[eid] = {}
  for model in ds.auxiliary_data.MisfitWindows.list():
      self.windows[eid][model] = {}
      for step in ds.auxiliary_data.MisfitWindows[model].list():
          self.windows[eid][model][step] = {}
          for window in ds.auxiliary_data.MisfitWindows[model][step]:
              cha_id = window.parameters["channel_id"]
              net, sta, loc, cha = cha_id.split(".")
              sta_id = f"{net}.{sta}"
              dlna = window.parameters["dlnA"]
              ...
              length_s = (window.parameters["relative_endtime"] -
                          window.parameters["relative_starttime"])
              ...
              win = self.windows[eid][model][step]
              if sta_id not in win:
                  win[sta_id] = {}
              if cha not in self.windows[eid][model][step][sta_id]:
                  win[sta_id][cha] = {"cc_shift_sec": [], "dlna": [], "weight": [],
                                      "max_cc": [], "length_s": [], "rel_start": [],
                                      "rel_end": []}
              win[sta_id][cha]["dlna"].append(dlna)
              ...
  \<close>
  Unpacking \<open>cha_id.split(".")\<close> into four names raises \<open>ValueError\<close> unless there are
  exactly four parts.
\<close>

definition add_window :: "misfit_window \<Rightarrow> sta_windows \<Rightarrow> py_error \<times> sta_windows + sta_windows" where
  "add_window window win =
     (case str_split CHR ''.'' (channel_id window) of
        [net, sta, loc, cha] \<Rightarrow>
          (let sta_id = net @ ''.'' @ sta;
               win1 = (if sta_id \<notin> set (keys win) then setitem win sta_id [] else win)
           in or_raise (getitem win1 sta_id) win1 (\<lambda>by_cha.
                let by_cha1 = (if cha \<notin> set (keys by_cha)
                               then setitem by_cha cha
                                 \<lparr>cc_shift_sec = [], dlna = [], weight = [], max_cc = [],
                                  length_s = [], rel_start = [], rel_end = []\<rparr>
                               else by_cha);
                    win2 = setitem win1 sta_id by_cha1
                in or_raise (getitem by_cha1 cha) win2 (\<lambda>w.
                     Inr (setitem win2 sta_id (setitem by_cha1 cha
                       (w\<lparr>dlna := dlna w @ [dlnA window],
                          weight := weight w @ [window_weight window],
                          max_cc := max_cc w @ [max_cc_value window],
                          length_s := length_s w @
                            [relative_endtime window - relative_starttime window],
                          rel_end := rel_end w @ [relative_endtime window],
                          rel_start := rel_start w @ [relative_starttime window],
                          cc_shift_sec := cc_shift_sec w @ [cc_shift_in_seconds window]\<rparr>))))))
      | parts \<Rightarrow> Inl (ValueError, win))"

definition get_windows :: "env \<Rightarrow> inspector \<Rightarrow> dataset \<Rightarrow> py_error \<times> inspector + inspector" where
  "get_windows ext self ds =
     (let eid = event_id ext ds in
      write_back (\<lambda>by_model. self\<lparr>windows := setitem (windows self) eid by_model\<rparr>)
        (for_loop_st (\<lambda>(model, by_step_ds) by_model.
           write_back (setitem by_model model)
             (for_loop_st (\<lambda>(step, records) by_step.
                write_back (setitem by_step step) (for_loop_st add_window records []))
              by_step_ds []))
         (MisfitWindows ds) []))"

section \<open>\<open>Inspector.get_srcrcv\<close>\<close>

text \<open>An entry read as a number, as \<open>gps2dist_azimuth\<close> needs it.\<close>

definition num :: "(string, sr_value) dict \<Rightarrow> string \<Rightarrow> py_error + real" where
  "num entry key =
     (case getitem entry key of
        Inl err \<Rightarrow> Inl err
      | Inr (Num x) \<Rightarrow> Inr x
      | Inr other \<Rightarrow> Inl TypeError)"

text \<open>
  \<^verbatim>\<open>
  eid = event_id(ds=ds)
  ev_x, ev_y = lonlat_utm(lon_or_x=ds.events[0].preferred_origin().longitude,
                          lat_or_y=ds.events[0].preferred_origin().latitude,
                          utm_zone=self._utm, inverse=False)
  self.srcrcv[eid] = {"lat": ..., "lon": ..., "depth_m": ..., "time": ...,
                      "mag": ..., "utm_x": ev_x, "utm_y": ev_y}
  for sta, sta_info in ds.get_all_coordinates().items():
      if sta not in self.srcrcv:
          sta_x, sta_y = lonlat_utm(lon_or_x=sta_info["longitude"],
                                    lat_or_y=sta_info["latitude"],
                                    utm_zone=self._utm, inverse=False)
          self.srcrcv[sta] = {"lat": ..., "lon": ..., "elv_m": ...,
                              "utm_x": sta_x, "utm_y": sta_y}
      gcd, _, baz = gps2dist_azimuth(lat1=self.srcrcv[eid]["lat"],
                                     lon1=self.srcrcv[eid]["lon"],
                                     lat2=self.srcrcv[sta]["lat"],
                                     lon2=self.srcrcv[sta]["lon"])
      self.srcrcv[eid][sta] = {"dist_km": gcd * 1E-3, "baz": baz}
  \<close>
\<close>

definition add_receiver ::
  "env \<Rightarrow> int \<Rightarrow> string \<Rightarrow> string \<times> station_coordinates \<Rightarrow> srcrcv_t \<Rightarrow>
   py_error \<times> srcrcv_t + srcrcv_t" where
  "add_receiver ext utm_zone eid = (\<lambda>(sta, sta_info) sr.
     let sr1 =
       (if sta \<notin> set (keys sr)
        then (case lonlat_utm ext (sta_longitude sta_info) (sta_latitude sta_info) utm_zone of
                (sta_x, sta_y) \<Rightarrow>
                  setitem sr sta
                    [(''lat'', Num (sta_latitude sta_info)),
                     (''lon'', Num (sta_longitude sta_info)),
                     (''elv_m'', Num (elevation_in_m sta_info)),
                     (''utm_x'', Num sta_x), (''utm_y'', Num sta_y)])
        else sr)
     in or_raise (getitem sr1 eid) sr1 (\<lambda>ev.
        or_raise (num ev ''lat'') sr1 (\<lambda>lat1.
        or_raise (num ev ''lon'') sr1 (\<lambda>lon1.
        or_raise (getitem sr1 sta) sr1 (\<lambda>rcv.
        or_raise (num rcv ''lat'') sr1 (\<lambda>lat2.
        or_raise (num rcv ''lon'') sr1 (\<lambda>lon2.
          case gps2dist_azimuth ext lat1 lon1 lat2 lon2 of
            (gcd_m, az, baz) \<Rightarrow>
              Inr (setitem sr1 eid (setitem ev sta (Link (gcd_m * (1 / 1000)) baz))))))))))"

definition get_srcrcv :: "env \<Rightarrow> inspector \<Rightarrow> dataset \<Rightarrow> py_error \<times> inspector + inspector" where
  "get_srcrcv ext self ds =
     (let eid = event_id ext ds in
      case ds_events ds of
        [] \<Rightarrow> Inl (IndexError, self)
      | ev # evs \<Rightarrow>
          (case lonlat_utm ext (longitude ev) (latitude ev) (utm self) of
             (ev_x, ev_y) \<Rightarrow>
               write_back (\<lambda>sr. self\<lparr>srcrcv := sr\<rparr>)
                 (for_loop_st (add_receiver ext (utm self) eid) (all_coordinates ds)
                    (setitem (srcrcv self) eid
                       [(''lat'', Num (latitude ev)), (''lon'', Num (longitude ev)),
                        (''depth_m'', Num (depth ev)), (''time'', Str (origin_time ev)),
                        (''mag'', Num (mag ev)), (''utm_x'', Num ev_x),
                        (''utm_y'', Num ev_y)]))))"

section \<open>\<open>Inspector.append\<close>\<close>

text \<open>
  \<^verbatim>\<open>
  try:
      with pyasdf.ASDFDataSet(dsfid) as ds:
          if windows: self.get_windows(ds)
          if srcrcv: self.get_srcrcv(ds)
          if misfits: self.get_misfits(ds)
          return 1
  except OSError:
      return 0
  except KeyError as e:
      return 0
  \<close>
  \<open>OSError\<close> and \<open>KeyError\<close> are caught and give status 0; any other exception
  leaves \<open>append\<close>.  What was written before the exception stays written.
\<close>

definition except_handler :: "py_error \<times> inspector \<Rightarrow> py_error \<times> inspector + int \<times> inspector" where
  "except_handler = (\<lambda>(err, self).
     if err = OSError \<or> err = KeyError then Inr (0, self) else Inl (err, self))"

definition append ::
  "env \<Rightarrow> inspector \<Rightarrow> string \<Rightarrow> bool \<Rightarrow> bool \<Rightarrow> bool \<Rightarrow> py_error \<times> inspector + int \<times> inspector" where
  "append ext self dsfid want_windows want_srcrcv want_misfits =
     (case ASDFDataSet ext dsfid of
        Inl err \<Rightarrow> except_handler (err, self)
      | Inr ds \<Rightarrow>
          (case (if want_windows then get_windows ext self ds else Inr self) of
             Inl x \<Rightarrow> except_handler x
           | Inr self1 \<Rightarrow>
               (case (if want_srcrcv then get_srcrcv ext self1 ds else Inr self1) of
                  Inl x \<Rightarrow> except_handler x
                | Inr self2 \<Rightarrow>
                    (case (if want_misfits then get_misfits ext self2 ds else Inr self2) of
                       Inl x \<Rightarrow> except_handler x
                     | Inr self3 \<Rightarrow> Inr (1, self3)))))"

text \<open>
  The state after a sequence of \<open>append\<close> calls, each given as
  \<open>(dsfid, windows, srcrcv, misfits)\<close>, whether a call returned or raised.
\<close>

definition state_after :: "py_error \<times> inspector + 'a \<times> inspector \<Rightarrow> inspector" where
  "state_after r = (case r of Inl (err, self) \<Rightarrow> self | Inr (status, self) \<Rightarrow> self)"

definition appends :: "env \<Rightarrow> (string \<times> bool \<times> bool \<times> bool) list \<Rightarrow> inspector \<Rightarrow> inspector" where
  "appends ext calls self =
     foldl (\<lambda>self (dsfid, want_windows, want_srcrcv, want_misfits).
              state_after (append ext self dsfid want_windows want_srcrcv want_misfits))
       self calls"

text \<open>
  The Event list and the Station list split the keys of \<open>srcrcv\<close> by whether they
  contain \<open>"."\<close>.
\<close>

definition axes_partitioned :: "inspector \<Rightarrow> bool" where
  "axes_partitioned self =
     (case (events self, stations self) of
        (Some es, Some ss) \<Rightarrow>
          (\<forall>key \<in> set es. CHR ''.'' \<notin> set key) \<and> (\<forall>key \<in> set ss. CHR ''.'' \<in> set key)
          \<and> (\<forall>key \<in> set (keys (srcrcv self)).
                (key \<in> set es \<longleftrightarrow> CHR ''.'' \<notin> set key)
                \<and> (key \<in> set ss \<longleftrightarrow> CHR ''.'' \<in> set key))
      | other \<Rightarrow> False)"

text \<open>The state left by \<open>_get_info\<close>, whether it returned or raised.\<close>

definition info_state :: "py_error \<times> inspector + inspector \<Rightarrow> inspector" where
  "info_state r = (case r of Inl (err, self) \<Rightarrow> self | Inr self \<Rightarrow> self)"

text \<open>
  One dataset: an event with one station, two adjoint sources of raw misfit 2 and 3
  for that station, and one window.  The station has 5 windows counted.
\<close>

definition example_ds :: dataset where
  "example_ds =
     \<lparr>ds_events = [\<lparr>latitude = -41, longitude = 174, depth = 20000,
                     origin_time = ''2018-02-18T07:43:48.000000Z'', mag = 9 / 2\<rparr>],
      all_coordinates =
        [(''NZ.BFZ'', \<lparr>sta_latitude = -40, sta_longitude = 176, elevation_in_m = 283\<rparr>)],
      AdjointSources =
        [(''m00'', [(''s00'', [\<lparr>station_id = ''NZ.BFZ'', misfit_value = 2\<rparr>,
                               \<lparr>station_id = ''NZ.BFZ'', misfit_value = 3\<rparr>])])],
      MisfitWindows =
        [(''m00'', [(''s00'', [\<lparr>channel_id = ''NZ.BFZ..HHZ'', dlnA = 1 / 10,
                                window_weight = 1, max_cc_value = 9 / 10,
                                relative_starttime = 10, relative_endtime = 25,
                                cc_shift_in_seconds = 1 / 2\<rparr>])])]\<rparr>"

definition example_env :: env where
  "example_env =
     \<lparr>ASDFDataSet = (\<lambda>dsfid. if dsfid = ''2018p130600.h5'' then Inr example_ds else Inl OSError),
      event_id = (\<lambda>ds. ''2018p130600''),
      lonlat_utm = (\<lambda>lon lat zone. (lon, lat)),
      gps2dist_azimuth = (\<lambda>lat1 lon1 lat2 lon2. (200000, 60, 240)),
      count_misfit_windows = (\<lambda>ds model step. Inr [(''NZ.BFZ'', 5)])\<rparr>"

text \<open>The state reached from a new Inspector by appending that dataset.\<close>

definition example_state :: inspector where
  "example_state =
     \<lparr>srcrcv =
        [(''2018p130600'',
          [(''lat'', Num (- 41)), (''lon'', Num 174), (''depth_m'', Num 20000),
           (''time'', Str ''2018-02-18T07:43:48.000000Z''), (''mag'', Num (9 / 2)),
           (''utm_x'', Num 174), (''utm_y'', Num (- 41)), (''NZ.BFZ'', Link 200 240)]),
         (''NZ.BFZ'',
          [(''lat'', Num (- 40)), (''lon'', Num 176), (''elv_m'', Num 283),
           (''utm_x'', Num 176), (''utm_y'', Num (- 40))])],
      misfits =
        [(''2018p130600'', [(''m00'', [(''s00'', [(''NZ.BFZ'', \<lparr>msft = 1 / 2, nwin = 5\<rparr>)])])])],
      windows =
        [(''2018p130600'',
          [(''m00'', [(''s00'', [(''NZ.BFZ'', [(''HHZ'',
             \<lparr>cc_shift_sec = [1 / 2], dlna = [1 / 10], weight = [1], max_cc = [9 / 10],
              length_s = [15], rel_start = [10], rel_end = [25]\<rparr>)])])])])],
      utm = - 60, stations = None, events = None, models = None, steps = None,
      iterations = 0\<rparr>"

text \<open>
  The misfit scaling as the specification words it: the raw contributions found for
  a station are summed, and the station total is divided by twice the station's
  window count.  Stations come in the order of their first record.
\<close>

definition first_occurrences :: "'a list \<Rightarrow> 'a list" where
  "first_occurrences xs = rev (remdups (rev xs))"

definition raw_total :: "adjoint_source list \<Rightarrow> string \<Rightarrow> real" where
  "raw_total records sta = sum_list (map misfit_value (filter (\<lambda>r. station_id r = sta) records))"

definition window_count :: "(string, int) dict \<Rightarrow> string \<Rightarrow> int" where
  "window_count num_win sta = (case map_of num_win sta of None \<Rightarrow> 0 | Some n \<Rightarrow> n)"

definition summed_misfits :: "(string, int) dict \<Rightarrow> adjoint_source list \<Rightarrow> sta_misfits" where
  "summed_misfits num_win records =
     map (\<lambda>sta. (sta, \<lparr>msft = raw_total records sta, nwin = window_count num_win sta\<rparr>))
       (first_occurrences (map station_id records))"

definition scaled_misfits :: "(string, int) dict \<Rightarrow> adjoint_source list \<Rightarrow> sta_misfits" where
  "scaled_misfits num_win records =
     map (\<lambda>sta. (sta, \<lparr>msft = raw_total records sta / real_of_int (2 * window_count num_win sta),
                        nwin = window_count num_win sta\<rparr>))
       (first_occurrences (map station_id records))"


text \<open>
  The window counts reported for a (model, step), and the condition under which
  \<open>get_misfits\<close> does not raise: \<open>count_misfit_windows\<close> returns, and it counts at least
  one window (a count other than 0) for every station that has a record.
\<close>

definition window_counts :: "env \<Rightarrow> dataset \<Rightarrow> string \<Rightarrow> string \<Rightarrow> (string, int) dict" where
  "window_counts ext ds model step =
     (case count_misfit_windows ext ds model step of Inl err \<Rightarrow> [] | Inr num_win \<Rightarrow> num_win)"

definition counts_ok :: "env \<Rightarrow> dataset \<Rightarrow> bool" where
  "counts_ok ext ds =
     (\<forall>(model, by_step) \<in> set (AdjointSources ds). \<forall>(step, records) \<in> set by_step.
        case count_misfit_windows ext ds model step of
          Inl err \<Rightarrow> False
        | Inr num_win \<Rightarrow> (\<forall>r \<in> set records. window_count num_win (station_id r) \<noteq> 0))"

text \<open>The names of the models, and of the steps of each model, are not repeated.\<close>

definition names_distinct :: "('k, ('j, 'v) dict) dict \<Rightarrow> bool" where
  "names_distinct aux =
     (distinct (keys aux) \<and> (\<forall>(model, by_step) \<in> set aux. distinct (keys by_step)))"

text \<open>
  The totals of one (model, step) view: the window lengths summed, and the windows
  counted, across all events, stations and channels.
\<close>

definition window_seconds :: "(string, sta_windows) dict \<Rightarrow> real" where
  "window_seconds by_event =
     sum_list (map (\<lambda>(event, by_sta).
       sum_list (map (\<lambda>(sta, by_cha).
         sum_list (map (\<lambda>(cha, w). sum_list (length_s w)) by_cha)) by_sta)) by_event)"

definition window_number :: "(string, sta_windows) dict \<Rightarrow> nat" where
  "window_number by_event =
     sum_list (map (\<lambda>(event, by_sta).
       sum_list (map (\<lambda>(sta, by_cha).
         sum_list (map (\<lambda>(cha, w). length (dlna w)) by_cha)) by_sta)) by_event)"

text \<open>Adding \<open>a\<close> and \<open>b\<close> to the two running totals of (model, step).\<close>

definition add_totals :: "string \<Rightarrow> string \<Rightarrow> real \<Rightarrow> nat \<Rightarrow> totals \<Rightarrow> totals" where
  "add_totals m s a b = (\<lambda>(cwl, now). (upd2 cwl m s (\<lambda>v. v + a), upd2 now m s (\<lambda>v. v + b)))"

text \<open>
  One event and one station with two channels, whose window lengths are
  \<open>[1.5, 2.0]\<close> and \<open>[3.0]\<close>; the axis metadata is derived.
\<close>

definition windows_of_length :: "real list \<Rightarrow> window_rec" where
  "windows_of_length ls =
     \<lparr>cc_shift_sec = map (\<lambda>l. 0) ls, dlna = map (\<lambda>l. 0) ls, weight = map (\<lambda>l. 1) ls,
      max_cc = map (\<lambda>l. 1) ls, length_s = ls, rel_start = map (\<lambda>l. 0) ls, rel_end = ls\<rparr>"

definition two_channel_index :: inspector where
  "two_channel_index =
     \<lparr>srcrcv = [(''e1'', [(''lat'', Num (- 41)), (''lon'', Num 174), (''mag'', Num 5)]),
                 (''NZ.BFZ'', [(''lat'', Num (- 40)), (''lon'', Num 176)])],
      misfits = [(''e1'', [(''m00'', [(''s00'', [(''NZ.BFZ'', \<lparr>msft = 1, nwin = 3\<rparr>)])])])],
      windows = [(''e1'', [(''m00'', [(''s00'', [(''NZ.BFZ'',
                   [(''HHZ'', windows_of_length [3 / 2, 2]),
                    (''HHN'', windows_of_length [3])])])])])],
      utm = - 60, stations = Some [''NZ.BFZ''], events = Some [''e1''],
      models = Some [''m00''], steps = Some [(''m00'', [''s00''])], iterations = 1\<rparr>"

text \<open>
  The aggregate misfit of one (model, step) view: the total misfit of each event
  (the sum of its per-station misfits), summed over the events and divided by their
  number.
\<close>

definition event_total :: "sta_misfits \<Rightarrow> real" where
  "event_total by_sta = sum_list (map (\<lambda>(sta, r). msft r) by_sta)"

definition mean_misfit :: "(string, sta_misfits) dict \<Rightarrow> real" where
  "mean_misfit by_event =
     sum_list (map (\<lambda>(event, by_sta). event_total by_sta) by_event) / real (length by_event)"

text \<open>Every (model, step) view has at least one event.\<close>

definition views_nonempty :: "(string, (string, (string, 'a) dict) dict) dict \<Rightarrow> bool" where
  "views_nonempty v = (\<forall>(m, by_step) \<in> set v. \<forall>(s, by_event) \<in> set by_step. by_event \<noteq> [])"

text \<open>Two events whose total misfits for (m00, s00) are 1 and 3.\<close>

definition two_event_index :: inspector where
  "two_event_index =
     \<lparr>srcrcv = [],
      misfits =
        [(''e1'', [(''m00'', [(''s00'', [(''NZ.BFZ'', \<lparr>msft = 1, nwin = 2\<rparr>)])])]),
         (''e2'', [(''m00'', [(''s00'', [(''NZ.BFZ'', \<lparr>msft = 1, nwin = 1\<rparr>),
                                        (''NZ.KNZ'', \<lparr>msft = 2, nwin = 4\<rparr>)])])])],
      windows = [],
      utm = - 60, stations = Some [], events = Some [],
      models = Some [''m00''], steps = Some [(''m00'', [''s00''])], iterations = 1\<rparr>"






section \<open>\<open>Inspector.exclude_events\<close>\<close>

text \<open>
  \<^verbatim>\<open>
  def exclude_events(self, coords=None, depth_min=None, depth_max=None,
                     mag_min=None, mag_max=None, starttime=None, endtime=None):
      if not coords:
          coords = []
      events_outside = []
      for event in self.srcrcv.keys():
          if "." in event:
              continue
          elif coords and \
                  (self.srcrcv[event]["lat"] < coords[0]) or \
                  (self.srcrcv[event]["lat"] > coords[1]) or \
                  (self.srcrcv[event]["lon"] < coords[2]) or \
                  (self.srcrcv[event]["lon"] > coords[3]):
              events_outside.append(event)
          elif depth_min or depth_max:
              source_depth = self.srcrcv[event]["depth_m"] * 1E-3
              if depth_min and source_depth < depth_min:
                  events_outside.append(event)
              elif depth_max and source_depth > depth_max:
                  events_outside.append(event)
          elif mag_min or mag_max:
              if mag_min and self.srcrcv[event]["mag"] < mag_min:
                  events_outside.append(event)
              elif mag_max and self.srcrcv[event]["mag"] > mag_max:
                  events_outside.append(event)
          elif starttime or endtime:
              source_time = UTCDateTime(self.srcrcv[event]["time"])
              if starttime and source_time < starttime:
                  events_outside.append(event)
              elif endtime and source_time < endtime:
                  events_outside.append(event)
      for event in events_outside:
          del self.misfits[event]
          del self.windows[event]
          del self.srcrcv[event]
      self._get_info()
      self._get_str()
  \<close>
  \<open>and\<close> binds tighter than \<open>or\<close>: the first condition reads
  \<open>(coords and lat < coords[0]) or lat > coords[1] or lon < coords[2] or lon > coords[3]\<close>,
  so only its first comparison is guarded by \<open>coords\<close>.  An optional number is true
  when it is given and not 0; an optional time is true when it is given.
\<close>

definition then_do :: "py_error + 'a \<Rightarrow> ('a \<Rightarrow> py_error + 'b) \<Rightarrow> py_error + 'b" where
  "then_do r k = (case r of Inl err \<Rightarrow> Inl err | Inr v \<Rightarrow> k v)"

definition truthy :: "real option \<Rightarrow> bool" where
  "truthy x = (case x of None \<Rightarrow> False | Some v \<Rightarrow> v \<noteq> 0)"

text \<open>\<open>xs[i]\<close> for an index from 0 on.\<close>

definition index :: "'a list \<Rightarrow> nat \<Rightarrow> py_error + 'a" where
  "index xs i = (if i < length xs then Inr (xs ! i) else Inl IndexError)"

text \<open>\<open>self.srcrcv[event][key] < coords[i]\<close> and \<open>... > coords[i]\<close>: left operand first.\<close>

definition less_coord :: "(string, sr_value) dict \<Rightarrow> string \<Rightarrow> real list \<Rightarrow> nat \<Rightarrow> py_error + bool" where
  "less_coord entry key coords i =
     then_do (num entry key) (\<lambda>x. then_do (index coords i) (\<lambda>c. Inr (x < c)))"

definition greater_coord :: "(string, sr_value) dict \<Rightarrow> string \<Rightarrow> real list \<Rightarrow> nat \<Rightarrow> py_error + bool" where
  "greater_coord entry key coords i =
     then_do (num entry key) (\<lambda>x. then_do (index coords i) (\<lambda>c. Inr (x > c)))"

definition outside_box :: "(string, sr_value) dict \<Rightarrow> real list \<Rightarrow> py_error + bool" where
  "outside_box entry coords =
     then_do (if coords \<noteq> [] then less_coord entry ''lat'' coords 0 else Inr False) (\<lambda>a.
       if a then Inr True
       else then_do (greater_coord entry ''lat'' coords 1) (\<lambda>b.
         if b then Inr True
         else then_do (less_coord entry ''lon'' coords 2) (\<lambda>c.
           if c then Inr True
           else greater_coord entry ''lon'' coords 3)))"

text \<open>\<open>UTCDateTime(self.srcrcv[event]["time"])\<close>, with the parser of time strings a parameter.\<close>

definition source_time :: "(string \<Rightarrow> real) \<Rightarrow> (string, sr_value) dict \<Rightarrow> py_error + real" where
  "source_time UTCDateTime entry =
     (case getitem entry ''time'' of
        Inl err \<Rightarrow> Inl err
      | Inr (Str s) \<Rightarrow> Inr (UTCDateTime s)
      | Inr (Num x) \<Rightarrow> Inr x
      | Inr (Link a b) \<Rightarrow> Inl TypeError)"

text \<open>The body of the first loop, on the list \<open>events_outside\<close>.\<close>

definition outside ::
  "(string \<Rightarrow> real) \<Rightarrow> inspector \<Rightarrow> real list \<Rightarrow> real option \<Rightarrow> real option \<Rightarrow> real option \<Rightarrow>
   real option \<Rightarrow> real option \<Rightarrow> real option \<Rightarrow> string \<Rightarrow> string list \<Rightarrow> py_error + string list" where
  "outside UTCDateTime self coords depth_min depth_max mag_min mag_max starttime endtime event
     events_outside =
     (if CHR ''.'' \<in> set event then Inr events_outside
      else
        then_do (getitem (srcrcv self) event) (\<lambda>entry.
        then_do (outside_box entry coords) (\<lambda>out.
          if out then Inr (events_outside @ [event])
          else if truthy depth_min \<or> truthy depth_max then
            then_do (num entry ''depth_m'') (\<lambda>d.
              let source_depth = d * (1 / 1000) in
              if (case depth_min of None \<Rightarrow> False | Some lo \<Rightarrow> lo \<noteq> 0 \<and> source_depth < lo)
              then Inr (events_outside @ [event])
              else if (case depth_max of None \<Rightarrow> False | Some hi \<Rightarrow> hi \<noteq> 0 \<and> source_depth > hi)
              then Inr (events_outside @ [event])
              else Inr events_outside)
          else if truthy mag_min \<or> truthy mag_max then
            then_do (case mag_min of
                       None \<Rightarrow> Inr False
                     | Some lo \<Rightarrow>
                         if lo \<noteq> 0 then then_do (num entry ''mag'') (\<lambda>m. Inr (m < lo))
                         else Inr False) (\<lambda>low.
              if low then Inr (events_outside @ [event])
              else
                then_do (case mag_max of
                           None \<Rightarrow> Inr False
                         | Some hi \<Rightarrow>
                             if hi \<noteq> 0 then then_do (num entry ''mag'') (\<lambda>m. Inr (m > hi))
                             else Inr False) (\<lambda>high.
                  if high then Inr (events_outside @ [event]) else Inr events_outside))
          else if starttime \<noteq> None \<or> endtime \<noteq> None then
            then_do (source_time UTCDateTime entry) (\<lambda>t.
              if (case starttime of None \<Rightarrow> False | Some t0 \<Rightarrow> t < t0)
              then Inr (events_outside @ [event])
              else if (case endtime of None \<Rightarrow> False | Some t1 \<Rightarrow> t < t1)
              then Inr (events_outside @ [event])
              else Inr events_outside)
          else Inr events_outside)))"

text \<open>The body of the second loop, on \<open>self\<close>.\<close>

definition delete_event :: "string \<Rightarrow> inspector \<Rightarrow> py_error \<times> inspector + inspector" where
  "delete_event event self =
     or_raise (delitem (misfits self) event) self (\<lambda>misfits'.
       let self1 = self\<lparr>misfits := misfits'\<rparr> in
       or_raise (delitem (windows self1) event) self1 (\<lambda>windows'.
         let self2 = self1\<lparr>windows := windows'\<rparr> in
         or_raise (delitem (srcrcv self2) event) self2 (\<lambda>srcrcv'.
           Inr (self2\<lparr>srcrcv := srcrcv'\<rparr>))))"

definition exclude_events ::
  "(string \<Rightarrow> real) \<Rightarrow> inspector \<Rightarrow> real list option \<Rightarrow> real option \<Rightarrow> real option \<Rightarrow>
   real option \<Rightarrow> real option \<Rightarrow> real option \<Rightarrow> real option \<Rightarrow> py_error \<times> inspector + inspector" where
  "exclude_events UTCDateTime self coords depth_min depth_max mag_min mag_max starttime endtime =
     (let coords' = (case coords of None \<Rightarrow> [] | Some c \<Rightarrow> c) in
      or_raise
        (for_loop
           (outside UTCDateTime self coords' depth_min depth_max mag_min mag_max starttime endtime)
           (keys (srcrcv self)) [])
        self (\<lambda>events_outside.
          case for_loop_st delete_event events_outside self of
            Inl x \<Rightarrow> Inl x
          | Inr self1 \<Rightarrow>
              (case get_info self1 of
                 Inl x \<Rightarrow> Inl x
               | Inr self2 \<Rightarrow> or_raise (get_str self2) self2 (\<lambda>u. Inr self2))))"

text \<open>
  Events of magnitude 4.5 and 6.0 and one station, with their misfit and window
  records.
\<close>

definition two_magnitude_index :: inspector where
  "two_magnitude_index =
     \<lparr>srcrcv =
        [(''e1'', [(''lat'', Num (- 41)), (''lon'', Num 174), (''depth_m'', Num 20000),
                   (''time'', Str ''2018-02-18T07:43:48.000000Z''), (''mag'', Num (9 / 2)),
                   (''utm_x'', Num 0), (''utm_y'', Num 0), (''NZ.BFZ'', Link 200 240)]),
         (''NZ.BFZ'', [(''lat'', Num (- 40)), (''lon'', Num 176), (''elv_m'', Num 283),
                       (''utm_x'', Num 0), (''utm_y'', Num 0)]),
         (''e2'', [(''lat'', Num (- 39)), (''lon'', Num 175), (''depth_m'', Num 10000),
                   (''time'', Str ''2019-01-01T00:00:00.000000Z''), (''mag'', Num 6),
                   (''utm_x'', Num 0), (''utm_y'', Num 0), (''NZ.BFZ'', Link 150 200)])],
      misfits =
        [(''e1'', [(''m00'', [(''s00'', [(''NZ.BFZ'', \<lparr>msft = 1, nwin = 2\<rparr>)])])]),
         (''e2'', [(''m00'', [(''s00'', [(''NZ.BFZ'', \<lparr>msft = 3, nwin = 1\<rparr>)])])])],
      windows =
        [(''e1'', [(''m00'', [(''s00'', [(''NZ.BFZ'', [(''HHZ'', one_window 1)])])])]),
         (''e2'', [(''m00'', [(''s00'', [(''NZ.BFZ'', [(''HHZ'', one_window 3)])])])])],
      utm = - 60, stations = Some [''NZ.BFZ''], events = Some [''e1'', ''e2''],
      models = Some [''m00''], steps = Some [(''m00'', [''s00''])], iterations = 1\<rparr>"

section \<open>\<open>Inspector.sort_misfits_by_station\<close>\<close>

text \<open>
  \<^verbatim>\<open>
  misfits = {}
  for event in self.misfits:
      for model in self.misfits[event]:
          if model not in misfits:
              misfits[model] = {}
          for step in self.misfits[event][model]:
              if step not in misfits[model]:
                  misfits[model][step] = {}
              for sta in self.misfits[event][model][step]:
                  if sta not in misfits[model][step]:
                      misfits[model][step][sta] = {"msft": 0, "nwin": 0,
                                                   "nevents": 0}
                  misfits[model][step][sta]["msft"] += (
                      self.misfits[event][model][sta]["msft"])
                  misfits[model][step][sta]["nwin"] += (
                      self.misfits[event][model][sta]["nwin"])
                  misfits[model][step][sta]["nevents"] += 1
          for sta in misfits[model][step]:
              misfits[model][step][sta]["msft"] /= \
                  misfits[model][step][sta]["nevents"]
  return misfits
  \<close>
  The two reads \<open>self.misfits[event][model][sta][...]\<close> index the step-level mapping
  of the model with a station id, and the result with \<open>"msft"\<close> or \<open>"nwin"\<close>: each
  lookup raises \<open>KeyError\<close> on a missing key, and what is found under such keys is a
  \<open>{"msft": ..., "nwin": ...}\<close> record, which \<open>+=\<close> cannot add to a number
  (\<open>TypeError\<close>).  The scaling loop follows the loop over the steps and uses the last
  value of \<open>step\<close>, which is unbound before the first step.
\<close>

record station_total =
  total_msft :: real
  total_nwin :: int
  nevents :: nat

definition misread ::
  "(string, sta_misfits) dict \<Rightarrow> string \<Rightarrow> string \<Rightarrow> py_error + 'a" where
  "misread by_step sta key =
     then_do (getitem by_step sta) (\<lambda>found.
       then_do (getitem found key) (\<lambda>r. Inl TypeError))"

text \<open>The body of the loop over the stations, on \<open>misfits[model][step]\<close>.\<close>

definition add_event_station ::
  "(string, sta_misfits) dict \<Rightarrow> string \<times> misfit_rec \<Rightarrow> (string, station_total) dict \<Rightarrow>
   py_error + (string, station_total) dict" where
  "add_event_station by_step = (\<lambda>(sta, r) acc.
     let acc1 = (if sta \<notin> set (keys acc)
                 then setitem acc sta \<lparr>total_msft = 0, total_nwin = 0, nevents = 0\<rparr>
                 else acc)
     in then_do (misread by_step sta ''msft'') (\<lambda>x.
        then_do (getitem acc1 sta) (\<lambda>t.
          let acc2 = setitem acc1 sta (t\<lparr>total_msft := total_msft t + x\<rparr>)
          in then_do (misread by_step sta ''nwin'') (\<lambda>n.
             then_do (getitem acc2 sta) (\<lambda>t.
               let acc3 = setitem acc2 sta (t\<lparr>total_nwin := total_nwin t + n\<rparr>)
               in then_do (getitem acc3 sta) (\<lambda>t.
                    Inr (setitem acc3 sta (t\<lparr>nevents := nevents t + 1\<rparr>))))))))"

text \<open>The body of the scaling loop, on \<open>misfits[model][step]\<close>.\<close>

definition scale_by_events ::
  "string \<Rightarrow> (string, station_total) dict \<Rightarrow> py_error + (string, station_total) dict" where
  "scale_by_events sta acc =
     then_do (getitem acc sta) (\<lambda>t.
       if nevents t = 0 then Inl ZeroDivisionError
       else Inr (setitem acc sta (t\<lparr>total_msft := total_msft t / real (nevents t)\<rparr>)))"

type_synonym by_station =
  "(string, (string, (string, station_total) dict) dict) dict"

text \<open>The body of the loop over the steps, on \<open>(misfits, step)\<close>.\<close>

definition add_event_step ::
  "string \<Rightarrow> (string, sta_misfits) dict \<Rightarrow> string \<times> sta_misfits \<Rightarrow> by_station \<times> string option \<Rightarrow>
   py_error + by_station \<times> string option" where
  "add_event_step model by_step = (\<lambda>(step, by_sta) (acc, last_step).
     then_do (getitem acc model) (\<lambda>acc_model.
       let acc_model1 = (if step \<notin> set (keys acc_model) then setitem acc_model step []
                         else acc_model)
       in then_do (getitem acc_model1 step) (\<lambda>acc_step.
            then_do (for_loop (add_event_station by_step) by_sta acc_step) (\<lambda>acc_step'.
              Inr (setitem acc model (setitem acc_model1 step acc_step'), Some step)))))"

text \<open>The body of the loop over the models, on \<open>(misfits, step)\<close>.\<close>

definition add_event_model ::
  "string \<times> (string, sta_misfits) dict \<Rightarrow> by_station \<times> string option \<Rightarrow>
   py_error + by_station \<times> string option" where
  "add_event_model = (\<lambda>(model, by_step) (acc, last_step).
     let acc1 = (if model \<notin> set (keys acc) then setitem acc model [] else acc)
     in then_do (for_loop (add_event_step model by_step) by_step (acc1, last_step))
          (\<lambda>(acc2, last_step').
             case last_step' of
               None \<Rightarrow> Inl UnboundLocalError
             | Some step \<Rightarrow>
                 then_do (getitem acc2 model) (\<lambda>acc_model.
                   then_do (getitem acc_model step) (\<lambda>acc_step.
                     then_do (for_loop scale_by_events (keys acc_step) acc_step) (\<lambda>acc_step'.
                       Inr (setitem acc2 model (setitem acc_model step acc_step'),
                            last_step'))))))"

definition sort_misfits_by_station :: "inspector \<Rightarrow> py_error + by_station" where
  "sort_misfits_by_station self =
     then_do (for_loop (\<lambda>(event, by_model). for_loop add_event_model by_model)
                (misfits self) ([], None))
       (\<lambda>(acc, last_step). Inr acc)"

section \<open>\<open>Inspector.save\<close> and \<open>Inspector.load\<close>\<close>

text \<open>
  \<^verbatim>\<open>
  def save(self, tag, path="./"):
      variables = [_ for _ in vars(self).keys() if '_' not in _]
      save_dict = {}
      for v in variables:
          if hasattr(self, v):
              save_dict[v] = getattr(self, v)
      with open(os.path.join(path, f"{tag}.json"), "w") as f:
          json.dump(save_dict, f, indent=4, sort_keys=True)

  def load(self, tag, path="./"):
      variables = [_ for _ in vars(self).keys() if '_' not in _]
      if tag.endswith(".json"):
          tag = tag.split(".")[0]
      try:
          with open(os.path.join(path, f"{tag}.json"), "r") as f:
              loaded_variables = json.load(f)
              for v in variables:
                  setattr(self, v, loaded_variables[v])
          return 1
      except FileNotFoundError:
          return 0
  \<close>
  The attributes of an Inspector, in the order \<open>__init__\<close> assigns them; the
  \<open>variables\<close> are those whose name has no underscore.
\<close>

definition attribute_names :: "string list" where
  "attribute_names =
     [''srcrcv'', ''misfits'', ''windows'', ''_utm'', ''_stations'', ''_events'', ''_str'',
      ''_models'', ''_steps'', ''_iterations'']"

definition variables :: "string list" where
  "variables = filter (\<lambda>v. CHR ''_'' \<notin> set v) attribute_names"

text \<open>
  What \<open>json.load\<close> gives back for a dictionary written by \<open>json.dump\<close> with
  \<open>sort_keys=True\<close>: the same keys in sorted order, with the values read back in the
  same way.  Numbers and strings are read back as they were written.
\<close>

definition json_dict :: "('v \<Rightarrow> 'w) \<Rightarrow> (string, 'v) dict \<Rightarrow> (string, 'w) dict" where
  "json_dict f d = sort_key fst (map (\<lambda>(k, v). (k, f v)) d)"

definition json_srcrcv :: "srcrcv_t \<Rightarrow> srcrcv_t" where
  "json_srcrcv = json_dict (json_dict (\<lambda>v. v))"

definition json_misfits :: "misfits_t \<Rightarrow> misfits_t" where
  "json_misfits = json_dict (json_dict (json_dict (json_dict (\<lambda>r. r))))"

definition json_windows :: "windows_t \<Rightarrow> windows_t" where
  "json_windows = json_dict (json_dict (json_dict (json_dict (json_dict (\<lambda>w. w)))))"

text \<open>
  The content of a JSON file as \<open>load\<close> reads it: the value under each of the three
  variable names, if the file has that key.
\<close>

record json_file =
  file_srcrcv :: "srcrcv_t option"
  file_misfits :: "misfits_t option"
  file_windows :: "windows_t option"

text \<open>\<open>os.path.join\<close> of two POSIX paths, and \<open>str.endswith\<close>.\<close>

definition os_path_join :: "string \<Rightarrow> string \<Rightarrow> string" where
  "os_path_join a b =
     (if b \<noteq> [] \<and> hd b = CHR ''/'' then b
      else if a = [] \<or> last a = CHR ''/'' then a @ b
      else a @ ''/'' @ b)"

definition endswith :: "string \<Rightarrow> string \<Rightarrow> bool" where
  "endswith s e \<longleftrightarrow> length e \<le> length s \<and> drop (length s - length e) s = e"

text \<open>
  The file system: the JSON files by path, and for every path the exception that
  \<open>open(path, "w")\<close> raises there, if any (\<open>FileNotFoundError\<close>, an \<open>OSError\<close>, when the
  directory is missing; \<open>PermissionError\<close>, \<open>IsADirectoryError\<close>).  \<open>open(path, "r")\<close>
  raises \<open>FileNotFoundError\<close> when there is no file at the path; a file that is there
  is read.
\<close>

record file_system =
  files :: "string \<rightharpoonup> json_file"
  open_for_writing :: "string \<Rightarrow> py_error option"

text \<open>
  \<open>save\<close> catches nothing: an exception of \<open>open\<close> leaves the file system as it was.
  Every variable is an attribute, so \<open>hasattr\<close> holds.
\<close>

definition save :: "inspector \<Rightarrow> string \<Rightarrow> string \<Rightarrow> file_system \<Rightarrow> py_error + file_system" where
  "save self tag path fs =
     (let save_dict =
        \<lparr>file_srcrcv = (if ''srcrcv'' \<in> set variables then Some (srcrcv self) else None),
         file_misfits = (if ''misfits'' \<in> set variables then Some (misfits self) else None),
         file_windows = (if ''windows'' \<in> set variables then Some (windows self) else None)\<rparr>;
          name = os_path_join path (tag @ ''.json'')
      in case open_for_writing fs name of
           Some err \<Rightarrow> Inl err
         | None \<Rightarrow>
             Inr (fs\<lparr>files := (files fs)(name \<mapsto>
               \<lparr>file_srcrcv = map_option json_srcrcv (file_srcrcv save_dict),
                file_misfits = map_option json_misfits (file_misfits save_dict),
                file_windows = map_option json_windows (file_windows save_dict)\<rparr>)\<rparr>))"

text \<open>\<open>setattr(self, v, loaded_variables[v])\<close>; a missing key raises \<open>KeyError\<close>.\<close>

definition set_variable :: "json_file \<Rightarrow> string \<Rightarrow> inspector \<Rightarrow> py_error \<times> inspector + inspector" where
  "set_variable loaded_variables v self =
     (if v = ''srcrcv'' then
        (case file_srcrcv loaded_variables of
           None \<Rightarrow> Inl (KeyError, self) | Some x \<Rightarrow> Inr (self\<lparr>srcrcv := x\<rparr>))
      else if v = ''misfits'' then
        (case file_misfits loaded_variables of
           None \<Rightarrow> Inl (KeyError, self) | Some x \<Rightarrow> Inr (self\<lparr>misfits := x\<rparr>))
      else if v = ''windows'' then
        (case file_windows loaded_variables of
           None \<Rightarrow> Inl (KeyError, self) | Some x \<Rightarrow> Inr (self\<lparr>windows := x\<rparr>))
      else Inl (KeyError, self))"

text \<open>
  \<open>load\<close> returns the status and the Inspector as the assignments left it; the
  \<open>FileNotFoundError\<close> of \<open>open\<close> is caught and gives status 0.
\<close>

definition load ::
  "inspector \<Rightarrow> string \<Rightarrow> string \<Rightarrow> file_system \<Rightarrow> py_error \<times> inspector + int \<times> inspector" where
  "load self tag path fs =
     (let tag' = (if endswith tag ''.json''
                  then (case str_split CHR ''.'' tag of [] \<Rightarrow> [] | part # parts \<Rightarrow> part)
                  else tag)
      in case files fs (os_path_join path (tag' @ ''.json'')) of
           None \<Rightarrow> Inr (0, self)
         | Some loaded_variables \<Rightarrow>
             (case for_loop_st (set_variable loaded_variables) variables self of
                Inl x \<Rightarrow> Inl x
              | Inr self' \<Rightarrow> Inr (1, self')))"

text \<open>
  \<open>Inspector(tag=tag)\<close>: the attributes are initialised, the file is loaded from the
  default path, and on status 1 the axis metadata is derived by \<open>_get_info\<close>.
\<close>

definition Inspector_tag :: "int \<Rightarrow> string \<Rightarrow> file_system \<Rightarrow> py_error \<times> inspector + inspector" where
  "Inspector_tag utm_zone tag fs =
     (case load (Inspector utm_zone) tag ''./'' fs of
        Inl x \<Rightarrow> Inl x
      | Inr (status, self) \<Rightarrow>
          if status \<noteq> 0
          then (case get_info self of
                  Inl x \<Rightarrow> Inl x
                | Inr self' \<Rightarrow> or_raise (get_str self') self' (\<lambda>u. Inr self'))
          else Inr self)"

text \<open>
  Equality of Python dictionaries: the same keys, and equal values under each key,
  in whatever order the keys are.
\<close>

definition dict_eq :: "('v \<Rightarrow> 'w \<Rightarrow> bool) \<Rightarrow> ('k, 'v) dict \<Rightarrow> ('k, 'w) dict \<Rightarrow> bool" where
  "dict_eq R d d' \<longleftrightarrow>
     set (keys d) = set (keys d') \<and> (\<forall>k \<in> set (keys d). rel_option R (map_of d k) (map_of d' k))"

definition srcrcv_eq :: "srcrcv_t \<Rightarrow> srcrcv_t \<Rightarrow> bool" where
  "srcrcv_eq = dict_eq (dict_eq (=))"

definition misfits_eq :: "misfits_t \<Rightarrow> misfits_t \<Rightarrow> bool" where
  "misfits_eq = dict_eq (dict_eq (dict_eq (dict_eq (=))))"

definition windows_eq :: "windows_t \<Rightarrow> windows_t \<Rightarrow> bool" where
  "windows_eq = dict_eq (dict_eq (dict_eq (dict_eq (dict_eq (=)))))"

text \<open>The keys of a dictionary are in ascending order, and \<open>P\<close> holds of its values.\<close>

definition keys_sorted :: "('v \<Rightarrow> bool) \<Rightarrow> (string, 'v) dict \<Rightarrow> bool" where
  "keys_sorted P d \<longleftrightarrow> sorted (keys d) \<and> list_all P (map snd d)"

definition srcrcv_sorted :: "srcrcv_t \<Rightarrow> bool" where
  "srcrcv_sorted = keys_sorted (keys_sorted (\<lambda>v. True))"

definition misfits_sorted :: "misfits_t \<Rightarrow> bool" where
  "misfits_sorted = keys_sorted (keys_sorted (keys_sorted (keys_sorted (\<lambda>r. True))))"

definition windows_sorted :: "windows_t \<Rightarrow> bool" where
  "windows_sorted =
     keys_sorted (keys_sorted (keys_sorted (keys_sorted (keys_sorted (\<lambda>w. True)))))"

text \<open>A file system with no file, where every file can be written.\<close>

definition empty_fs :: file_system where
  "empty_fs = \<lparr>files = Map.empty, open_for_writing = (\<lambda>name. None)\<rparr>"

text \<open>
  The two events of \<open>missing_step_index\<close> with their windows: \<open>e2\<close> has windows for
  model \<open>m00\<close> under step \<open>s00\<close> but none under \<open>s01\<close>.
\<close>

definition missing_step_windows :: inspector where
  "missing_step_windows = missing_step_index
     \<lparr>windows :=
        [(''e1'', [(''m00'', [(''s00'', [(''NZ.BFZ'', [(''HHZ'', one_window 1)])]),
                             (''s01'', [(''NZ.BFZ'', [(''HHZ'', one_window 2)])])])]),
         (''e2'', [(''m00'', [(''s00'', [(''NZ.BFZ'', [(''HHZ'', one_window 3)])])])])]\<rparr>"

chapter \<open>Verified properties\<close>

section \<open>Properties of \<open>misfit_values\<close>\<close>

lemma for_loop_skip:
  "(\<And>x s. x \<in> set xs \<Longrightarrow> body x s = Inr s) \<Longrightarrow> for_loop body xs s = Inr s"
  by (induction xs arbitrary: s) auto

lemma getitem_present:
  "k \<in> set (keys d) \<Longrightarrow> \<exists>v. getitem d k = Inr v \<and> (k, v) \<in> set d"
  by (induction d) (auto simp: getitem_def keys_def)

lemma step_presentD:
  "step_present self model step \<Longrightarrow> (event, by_model) \<in> set (misfits self) \<Longrightarrow>
   (model, by_step) \<in> set by_model \<Longrightarrow> step \<in> set (keys by_step)"
  unfolding step_present_def
  apply (drule (1) bspec)
  apply simp
  apply (drule (1) bspec)
  apply simp
  done
lemma no_station_namedD:
  "no_station_named self step \<Longrightarrow> (event, by_model) \<in> set (misfits self) \<Longrightarrow>
   (model, by_step) \<in> set by_model \<Longrightarrow> (step', by_sta) \<in> set by_step \<Longrightarrow> step \<notin> set (keys by_sta)"
  unfolding no_station_named_def
  apply (drule (1) bspec)
  apply simp
  apply (drule (1) bspec)
  apply simp
  apply (drule (1) bspec)
  apply simp
  done

lemma inner_skip:
  fixes by_sta :: sta_misfits
  assumes "step \<notin> set (keys by_sta)"
  shows "for_loop (\<lambda>(step', stas) misfit.
                     if step' \<noteq> step then Inr misfit
                     else for_loop (\<lambda>(sta, r) misfit. Inr (misfit @ [msft r])) by_sta misfit)
                   by_sta misfit = Inr misfit"
proof (rule for_loop_skip)
  fix x :: "string \<times> misfit_rec" and s :: "real list"
  assume "x \<in> set by_sta"
  then have "fst x \<in> set (keys by_sta)" by (simp add: keys_def)
  with assms have "fst x \<noteq> step" by auto
  then show "(case x of (step', stas) \<Rightarrow> \<lambda>misfit.
                     if step' \<noteq> step then Inr misfit
                     else for_loop (\<lambda>(sta, r) misfit. Inr (misfit @ [msft r])) by_sta misfit) s = Inr s"
    by (cases x) simp
qed

lemma for_loop_skip_or_raise:
  assumes "\<And>x s. x \<in> set xs \<Longrightarrow> \<not> bad x \<Longrightarrow> body x s = Inr s"
    and "\<And>x s. x \<in> set xs \<Longrightarrow> bad x \<Longrightarrow> body x s = Inl e"
  shows "for_loop body xs s = (if \<exists>x \<in> set xs. bad x then Inl e else Inr s)"
  using assms
proof (induction xs)
  case Nil
  show ?case by simp
next
  case (Cons a xs)
  have IH: "for_loop body xs s = (if \<exists>x \<in> set xs. bad x then Inl e else Inr s)"
    using Cons.prems by (intro Cons.IH) simp_all
  show ?case
  proof (cases "bad a")
    case True
    then have "body a s = Inl e" using Cons.prems(2) [of a s] by simp
    with True show ?thesis by simp
  next
    case False
    then have "body a s = Inr s" using Cons.prems(1) [of a s] by simp
    with False IH show ?thesis by simp
  qed
qed

lemma step_present_iff:
  "step_present self model step \<longleftrightarrow>
     \<not> (\<exists>x \<in> set (misfits self). \<exists>y \<in> set (snd x). fst y = model \<and> step \<notin> set (keys (snd y)))"
  unfolding step_present_def case_prod_unfold by blast

lemma getitem_absent: "k \<notin> set (keys d) \<Longrightarrow> getitem d k = Inl KeyError"
  by (induction d) (auto simp: getitem_def keys_def)

text \<open>
  Claim C10, as the code has it.  In a state where no station key equals the queried
  step identifier, \<open>misfit_values\<close> never collects a misfit value: it returns the empty
  list when every event that holds the queried model holds the queried step under it,
  and raises \<open>KeyError\<close> otherwise, at the subscript \<open>[step]\<close>.
\<close>

theorem misfit_values_empty:
  assumes "no_station_named self step"
  shows "misfit_values self model step
           = (if step_present self model step then Inr [] else Inl KeyError)"
proof -
  let ?inner = "\<lambda>by_sta :: sta_misfits.
     for_loop (\<lambda>(step', stas) misfit.
                     if step' \<noteq> step then Inr misfit
                     else for_loop (\<lambda>(sta, r) misfit. Inr (misfit @ [msft r])) by_sta misfit)
                   by_sta"
  let ?mbody = "\<lambda>(model', by_step) misfit.
         if model' \<noteq> model then Inr misfit
         else (case getitem by_step step of
                 Inl e \<Rightarrow> Inl e
               | Inr by_sta \<Rightarrow> ?inner by_sta misfit)"
  let ?badm = "\<lambda>y :: string \<times> (string, sta_misfits) dict.
     fst y = model \<and> step \<notin> set (keys (snd y))"
  let ?bade = "\<lambda>x :: string \<times> (string, (string, sta_misfits) dict) dict.
     \<exists>y \<in> set (snd x). ?badm y"
  have ev: "for_loop ?mbody (snd x) misfit = (if ?bade x then Inl KeyError else Inr misfit)"
    if x: "x \<in> set (misfits self)" for x and misfit :: "real list"
  proof (rule for_loop_skip_or_raise)
    fix y :: "string \<times> (string, sta_misfits) dict" and s :: "real list"
    assume y: "y \<in> set (snd x)" and ok: "\<not> ?badm y"
    show "?mbody y s = Inr s"
    proof (cases "fst y = model")
      case False
      then show ?thesis by (simp add: case_prod_unfold)
    next
      case True
      with ok have "step \<in> set (keys (snd y))" by simp
      then obtain by_sta where g: "getitem (snd y) step = Inr by_sta"
        and m: "(step, by_sta) \<in> set (snd y)"
        using getitem_present [of step "snd y"] by auto
      have "(fst x, snd x) \<in> set (misfits self)" using x by simp
      moreover have "(fst y, snd y) \<in> set (snd x)" using y by simp
      ultimately have "step \<notin> set (keys by_sta)"
        using m by (rule no_station_namedD [OF assms])
      then have "?inner by_sta s = Inr s" by (rule inner_skip)
      with True g show ?thesis by (simp add: case_prod_unfold)
    qed
  next
    fix y :: "string \<times> (string, sta_misfits) dict" and s :: "real list"
    assume "y \<in> set (snd x)" and "?badm y"
    then show "?mbody y s = Inl KeyError"
      by (simp add: case_prod_unfold getitem_absent)
  qed
  have "for_loop (\<lambda>(event, by_model) misfit. for_loop ?mbody by_model misfit) (misfits self) []
          = (if \<exists>x \<in> set (misfits self). ?bade x then Inl KeyError else Inr [])"
  proof (rule for_loop_skip_or_raise)
    fix x :: "string \<times> (string, (string, sta_misfits) dict) dict" and s :: "real list"
    assume "x \<in> set (misfits self)" and "\<not> ?bade x"
    then show "(case x of (event, by_model) \<Rightarrow> \<lambda>misfit. for_loop ?mbody by_model misfit) s = Inr s"
      using ev [of x s] by (simp add: case_prod_unfold)
  next
    fix x :: "string \<times> (string, (string, sta_misfits) dict) dict" and s :: "real list"
    assume "x \<in> set (misfits self)" and "?bade x"
    then show "(case x of (event, by_model) \<Rightarrow> \<lambda>misfit. for_loop ?mbody by_model misfit) s
                 = Inl KeyError"
      using ev [of x s] by (simp add: case_prod_unfold)
  qed
  then show ?thesis
    unfolding misfit_values_def step_present_iff by simp
qed

theorem misfit_values_empty_witness:
  "no_station_named
     (Inspector (-60)
        \<lparr>misfits := [(''e1'', [(''m00'', [(''s00'',
            [(''NZ.BFZ'', \<lparr>msft = 1/2, nwin = 5\<rparr>)])])])]\<rparr>) ''s00''
   \<and> step_present
     (Inspector (-60)
        \<lparr>misfits := [(''e1'', [(''m00'', [(''s00'',
            [(''NZ.BFZ'', \<lparr>msft = 1/2, nwin = 5\<rparr>)])])])]\<rparr>) ''m00'' ''s00''
   \<and> misfit_values
     (Inspector (-60)
        \<lparr>misfits := [(''e1'', [(''m00'', [(''s00'',
            [(''NZ.BFZ'', \<lparr>msft = 1/2, nwin = 5\<rparr>)])])])]\<rparr>) ''m00'' ''s00'' = Inr []"
proof -
  let ?i = "Inspector (-60)
        \<lparr>misfits := [(''e1'', [(''m00'', [(''s00'',
            [(''NZ.BFZ'', \<lparr>msft = 1/2, nwin = 5\<rparr>)])])])]\<rparr>"
  have a: "no_station_named ?i ''s00''"
    by (simp add: no_station_named_def Inspector_def keys_def)
  have b: "step_present ?i ''m00'' ''s00''"
    by (simp add: step_present_def Inspector_def keys_def)
  from a b misfit_values_empty [OF a, of "''m00''"] show ?thesis by simp
qed

text \<open>
  Event \<open>e2\<close> holds model \<open>m00\<close> without step \<open>s01\<close>: the call raises, although no
  station is named \<open>s01\<close>.
\<close>

theorem misfit_values_missing_step_raises:
  "no_station_named missing_step_index ''s01''
   \<and> misfit_values missing_step_index ''m00'' ''s01'' = Inl KeyError"
  by (simp add: no_station_named_def misfit_values_def missing_step_index_def Inspector_def
      keys_def getitem_def)

lemma keys_upd [simp]: "keys (upd d k f) = keys d"
  by (induction d) (auto simp: upd_def keys_def)

lemma upd_Nil [simp]: "upd [] k f = []"
  by (simp add: upd_def)

lemma upd_Cons [simp]:
  "upd ((k', v) # d) k f = (if k' = k then (k', f v) else (k', v)) # upd d k f"
  by (simp add: upd_def)

lemma shape_upd2 [simp]: "shape (upd2 d m s f) = shape d"
proof (induction d)
  case Nil
  show ?case by (simp add: upd2_def)
next
  case (Cons a d)
  obtain k v where a: "a = (k, v)" by (cases a)
  from Cons have "shape (upd d m (\<lambda>inner. upd inner s f)) = shape d"
    by (simp add: upd2_def)
  then show ?case
    by (simp add: a upd2_def shape_def)
qed

lemma setitem_upd: "k \<in> set (keys d) \<Longrightarrow> setitem d k v = upd d k (\<lambda>u. v)"
  by (simp add: setitem_def upd_def)

lemma setitem_fresh: "k \<notin> set (keys d) \<Longrightarrow> setitem d k v = d @ [(k, v)]"
  by (simp add: setitem_def)

lemma upd_cong_value:
  "distinct (keys d) \<Longrightarrow> map_of d k = Some v \<Longrightarrow> upd d k (\<lambda>u. f v) = upd d k f"
proof (induction d)
  case Nil
  then show ?case by (simp add: upd_def)
next
  case (Cons a d)
  obtain k' v' where a: "a = (k', v')" by (cases a)
  show ?case
  proof (cases "k' = k")
    case True
    with Cons.prems a have v: "v' = v" and nk: "k \<notin> set (keys d)"
      by (auto simp: keys_def)
    from nk have "\<And>g. upd d k g = d"
      by (induction d) (auto simp: upd_def keys_def)
    with a True v show ?thesis by (simp add: upd_def)
  next
    case False
    with Cons a show ?thesis by (simp add: upd_def keys_def)
  qed
qed

lemma getitem_Inr: "getitem d k = Inr v \<longleftrightarrow> map_of d k = Some v"
  by (simp add: getitem_def split: option.splits)

lemma map_of_keys: "map_of d k = Some v \<Longrightarrow> k \<in> set (keys d)"
  by (induction d) (auto simp: keys_def split: if_splits)

lemma shape_lookup:
  "map_of d m = Some inner \<Longrightarrow> (m, keys inner) \<in> set (shape d)"
  by (induction d) (auto simp: shape_def split: if_splits)

lemma keys_shape: "map fst (shape d) = keys d"
  by (induction d) (auto simp: shape_def keys_def)

section \<open>Properties of \<open>sort_by_model\<close>\<close>

lemma keys_Nil [simp]: "keys [] = []"
  by (simp add: keys_def)

lemma keys_Cons [simp]: "keys ((k, v) # d) = k # keys d"
  by (simp add: keys_def)

lemma keys_append [simp]: "keys (d @ d') = keys d @ keys d'"
  by (simp add: keys_def)

lemma keys_map_pair [simp]: "keys (map (\<lambda>k. (k, g k)) ks) = ks"
  by (induction ks) simp_all

lemma for_loop_setitem:
  assumes "distinct ks" and "set ks \<inter> set (keys acc) = {}"
    and "\<And>k. k \<in> set ks \<Longrightarrow> f k = Inr (g k)"
  shows "for_loop (\<lambda>k acc. case f k of Inl err \<Rightarrow> Inl err | Inr v \<Rightarrow> Inr (setitem acc k v)) ks acc
         = Inr (acc @ map (\<lambda>k. (k, g k)) ks)"
  using assms
proof (induction ks arbitrary: acc)
  case Nil
  show ?case by simp
next
  case (Cons k ks)
  have fk: "f k = Inr (g k)" using Cons.prems(3) by simp
  have fresh: "k \<notin> set (keys acc)" using Cons.prems(2) by auto
  have d: "distinct ks" and nk: "k \<notin> set ks" using Cons.prems(1) by auto
  have disj: "set ks \<inter> set (keys (acc @ [(k, g k)])) = {}"
    using Cons.prems(2) nk by auto
  have "for_loop (\<lambda>k acc. case f k of Inl err \<Rightarrow> Inl err | Inr v \<Rightarrow> Inr (setitem acc k v))
          ks (acc @ [(k, g k)]) = Inr ((acc @ [(k, g k)]) @ map (\<lambda>k. (k, g k)) ks)"
    using d disj Cons.prems(3) by (intro Cons.IH) auto
  then show ?case
    using fk fresh by (simp add: setitem_fresh)
qed

lemma dict_comp_map:
  assumes "distinct ks" and "\<And>k. k \<in> set ks \<Longrightarrow> f k = Inr (g k)"
  shows "dict_comp f ks = Inr (map (\<lambda>k. (k, g k)) ks)"
  unfolding dict_comp_def using for_loop_setitem [of ks "[]" f g] assms by simp


lemma in_keys_map_of: "k \<in> set (keys d) \<longleftrightarrow> (\<exists>v. map_of d k = Some v)"
  by (induction d) (auto simp: keys_def)

lemma slice_Nil [simp]: "slice [] m s = []"
  by (simp add: slice_def)

lemma slice_Cons:
  "slice ((e, by_model) # d) m s =
     (case map_of by_model m of
        None \<Rightarrow> slice d m s
      | Some by_step \<Rightarrow>
          (case map_of by_step s of None \<Rightarrow> slice d m s | Some v \<Rightarrow> (e, v) # slice d m s))"
  by (simp add: slice_def split: option.splits)

lemma events_of_acc:
  assumes "distinct (keys d)" and "set (keys d) \<inter> set (keys acc) = {}"
    and "\<And>e by_model by_step. (e, by_model) \<in> set d \<Longrightarrow> map_of by_model m = Some by_step
           \<Longrightarrow> s \<in> set (keys by_step)"
  shows "for_loop (\<lambda>(e, by_model) acc.
       if m \<in> set (keys by_model)
       then (case getitem by_model m of
               Inl err \<Rightarrow> Inl err
             | Inr by_step \<Rightarrow>
                 (case getitem by_step s of
                    Inl err \<Rightarrow> Inl err
                  | Inr v \<Rightarrow> Inr (setitem acc e v)))
       else Inr acc) d acc = Inr (acc @ slice d m s)"
  using assms
proof (induction d arbitrary: acc)
  case Nil
  show ?case by simp
next
  case (Cons a d)
  obtain e by_model where a: "a = (e, by_model)" by (cases a)
  have dd: "distinct (keys d)" and ne: "e \<notin> set (keys d)" and fresh: "e \<notin> set (keys acc)"
    using Cons.prems(1,2) a by auto
  have cov: "\<And>e by_model by_step. (e, by_model) \<in> set d \<Longrightarrow> map_of by_model m = Some by_step
           \<Longrightarrow> s \<in> set (keys by_step)"
    using Cons.prems(3) by auto
  show ?case
  proof (cases "map_of by_model m")
    case None
    then have nm: "m \<notin> set (keys by_model)" by (simp add: in_keys_map_of)
    have disj: "set (keys d) \<inter> set (keys acc) = {}" using Cons.prems(2) a by auto
    from Cons.IH [OF dd disj cov] nm None a show ?thesis
      by (simp add: slice_Cons)
  next
    case (Some by_step)
    then have im: "m \<in> set (keys by_model)" by (auto simp: in_keys_map_of)
    have "s \<in> set (keys by_step)" using Cons.prems(3) [of e by_model by_step] a Some by simp
    then obtain v where v: "map_of by_step s = Some v" by (auto simp: in_keys_map_of)
    have disj: "set (keys d) \<inter> set (keys (acc @ [(e, v)])) = {}"
      using Cons.prems(2) a ne by auto
    from Cons.IH [OF dd disj cov] im Some v a fresh show ?thesis
      by (simp add: slice_Cons getitem_def setitem_fresh)
  qed
qed

lemma events_of_slice:
  assumes "distinct (keys d)"
    and "\<And>e by_model by_step. (e, by_model) \<in> set d \<Longrightarrow> map_of by_model m = Some by_step
           \<Longrightarrow> s \<in> set (keys by_step)"
  shows "events_of d m s = Inr (slice d m s)"
  unfolding events_of_def using events_of_acc [of d "[]" m s] assms by simp


lemma steps_coveredD:
  "steps_covered ms st d \<Longrightarrow> (e, by_model) \<in> set d \<Longrightarrow> m \<in> set ms \<Longrightarrow>
   map_of by_model m = Some by_step \<Longrightarrow> map_of st m = Some ss \<Longrightarrow> s \<in> set ss \<Longrightarrow>
   s \<in> set (keys by_step)"
  unfolding steps_covered_def
  apply (drule (1) bspec)
  apply simp
  apply (drule (1) bspec)
  apply simp
  apply (erule (1) subsetD)
  done

lemma axes_knownD:
  "axes_known self ms st \<Longrightarrow> m \<in> set ms \<Longrightarrow> \<exists>ss. map_of st m = Some ss \<and> distinct ss"
  unfolding axes_known_def
  apply (elim conjE)
  apply (drule (1) bspec)
  apply (cases "map_of st m")
   apply simp_all
  done

lemma sort_by_model_of_reindex:
  assumes ax: "axes_known self ms st" and dd: "distinct (keys d)"
    and cov: "steps_covered ms st d"
  shows "sort_by_model_of self d = Inr (reindex_by_model ms st d)"
proof -
  have ms: "models self = Some ms" and st: "steps self = Some st" and dms: "distinct ms"
    using ax by (simp_all add: axes_known_def)
  have inner: "(case steps self of
              None \<Rightarrow> Inl TypeError
            | Some st \<Rightarrow>
                (case getitem st m of
                   Inl err \<Rightarrow> Inl err
                 | Inr ss \<Rightarrow> dict_comp (\<lambda>s. events_of d m s) ss))
        = Inr (map (\<lambda>s. (s, slice d m s)) (case map_of st m of None \<Rightarrow> [] | Some ss \<Rightarrow> ss))"
    if m: "m \<in> set ms" for m
  proof -
    from axes_knownD [OF ax m] obtain ss where ss: "map_of st m = Some ss" and dss: "distinct ss"
      by auto
    have "dict_comp (\<lambda>s. events_of d m s) ss = Inr (map (\<lambda>s. (s, slice d m s)) ss)"
    proof (rule dict_comp_map [OF dss])
      fix s assume s: "s \<in> set ss"
      show "events_of d m s = Inr (slice d m s)"
      proof (rule events_of_slice [OF dd])
        fix e by_model by_step
        assume "(e, by_model) \<in> set d" and "map_of by_model m = Some by_step"
        then show "s \<in> set (keys by_step)"
          using steps_coveredD [OF cov _ m _ ss s] by simp
      qed
    qed
    with st ss show ?thesis by (simp add: getitem_def)
  qed
  have "dict_comp (\<lambda>m.
            case steps self of
              None \<Rightarrow> Inl TypeError
            | Some st \<Rightarrow>
                (case getitem st m of
                   Inl err \<Rightarrow> Inl err
                 | Inr ss \<Rightarrow> dict_comp (\<lambda>s. events_of d m s) ss)) ms
        = Inr (map (\<lambda>m. (m, map (\<lambda>s. (s, slice d m s))
                   (case map_of st m of None \<Rightarrow> [] | Some ss \<Rightarrow> ss))) ms)"
    by (rule dict_comp_map [OF dms]) (rule inner)
  with ms show ?thesis
    by (simp add: sort_by_model_of_def reindex_by_model_def)
qed

lemma slice_keys:
  assumes "\<And>e by_model by_step. (e, by_model) \<in> set d \<Longrightarrow> map_of by_model m = Some by_step
           \<Longrightarrow> s \<in> set (keys by_step)"
  shows "keys (slice d m s) = keys (filter (\<lambda>(e, by_model). m \<in> set (keys by_model)) d)"
  using assms
proof (induction d)
  case Nil
  show ?case by simp
next
  case (Cons a d)
  obtain e by_model where a: "a = (e, by_model)" by (cases a)
  have IH: "keys (slice d m s) = keys (filter (\<lambda>(e, by_model). m \<in> set (keys by_model)) d)"
    using Cons.prems by (intro Cons.IH) auto
  show ?case
  proof (cases "map_of by_model m")
    case None
    then have "m \<notin> set (keys by_model)" by (simp add: in_keys_map_of)
    with None IH a show ?thesis by (simp add: slice_Cons)
  next
    case (Some by_step)
    then have im: "m \<in> set (keys by_model)" by (auto simp: in_keys_map_of)
    have "s \<in> set (keys by_step)" using Cons.prems [of e by_model by_step] a Some by simp
    then obtain v where v: "map_of by_step s = Some v" by (auto simp: in_keys_map_of)
    with Some IH a im show ?thesis by (simp add: slice_Cons)
  qed
qed


text \<open>
  Claim C5, as the code has it.  With the axis metadata known, and every event that
  holds a listed model holding each step listed for it, \<open>sort_by_model\<close> returns the
  model-major view without raising, and an event that lacks a model is left out of
  every step view of that model.
\<close>

theorem sort_by_model_omits_missing_model:
  assumes "axes_known self ms st"
  shows "(distinct (keys (misfits self)) \<and> steps_covered ms st (misfits self) \<longrightarrow>
            sort_by_model self ''misfits'' = Inr (Misfits (reindex_by_model ms st (misfits self)))
            \<and> omits_events_lacking ms st (misfits self))
       \<and> (distinct (keys (windows self)) \<and> steps_covered ms st (windows self) \<longrightarrow>
            sort_by_model self ''windows'' = Inr (Windows (reindex_by_model ms st (windows self)))
            \<and> omits_events_lacking ms st (windows self))"
proof -
  have omit: "omits_events_lacking ms st d" if cov: "steps_covered ms st d"
    for d :: "(string, (string, (string, 'a) dict) dict) dict"
    unfolding omits_events_lacking_def
  proof (intro ballI)
    fix m s
    assume m: "m \<in> set ms" and s: "s \<in> set (case map_of st m of None \<Rightarrow> [] | Some ss \<Rightarrow> ss)"
    from axes_knownD [OF assms m] obtain ss where ss: "map_of st m = Some ss" by auto
    with s have s': "s \<in> set ss" by simp
    show "keys (slice d m s) = keys (filter (\<lambda>(e, by_model). m \<in> set (keys by_model)) d)"
    proof (rule slice_keys)
      fix e by_model by_step
      assume "(e, by_model) \<in> set d" and "map_of by_model m = Some by_step"
      then show "s \<in> set (keys by_step)"
        using steps_coveredD [OF cov _ m _ ss s'] by simp
    qed
  qed
  show ?thesis
    using sort_by_model_of_reindex [OF assms, of "misfits self"]
      sort_by_model_of_reindex [OF assms, of "windows self"]
      omit [of "misfits self"] omit [of "windows self"]
    by (simp add: sort_by_model_def)
qed


lemma get_info_missing_model_index:
  "get_info missing_model_index =
     Inr (missing_model_index\<lparr>stations := Some [], events := Some [],
            models := Some [''m00'', ''m01''],
            steps := Some [(''m00'', [''s00'']), (''m01'', [''s00''])], iterations := 2\<rparr>)"
  by (simp add: get_info_def missing_model_index_def Inspector_def)

theorem sort_by_model_omits_missing_model_witness:
  "axes_known (missing_model_index\<lparr>models := Some [''m00'', ''m01''],
       steps := Some [(''m00'', [''s00'']), (''m01'', [''s00''])]\<rparr>)
     [''m00'', ''m01''] [(''m00'', [''s00'']), (''m01'', [''s00''])]
   \<and> distinct (keys (misfits missing_model_index))
   \<and> steps_covered [''m00'', ''m01''] [(''m00'', [''s00'']), (''m01'', [''s00''])]
        (misfits missing_model_index)
   \<and> distinct (keys (windows missing_model_index))
   \<and> steps_covered [''m00'', ''m01''] [(''m00'', [''s00'']), (''m01'', [''s00''])]
        (windows missing_model_index)
   \<and> sort_by_model (missing_model_index\<lparr>models := Some [''m00'', ''m01''],
       steps := Some [(''m00'', [''s00'']), (''m01'', [''s00''])]\<rparr>) ''misfits''
     = Inr (Misfits
        [(''m00'', [(''s00'', [(''e1'', [(''NZ.BFZ'', \<lparr>msft = 1, nwin = 2\<rparr>)]),
                              (''e2'', [(''NZ.BFZ'', \<lparr>msft = 3, nwin = 1\<rparr>)])])]),
         (''m01'', [(''s00'', [(''e1'', [(''NZ.BFZ'', \<lparr>msft = 2, nwin = 2\<rparr>)])])])])
   \<and> sort_by_model (missing_model_index\<lparr>models := Some [''m00'', ''m01''],
       steps := Some [(''m00'', [''s00'']), (''m01'', [''s00''])]\<rparr>) ''windows''
     = Inr (Windows
        [(''m00'', [(''s00'', [(''e1'', [(''NZ.BFZ'', [(''HHZ'', one_window 1)])]),
                              (''e2'', [(''NZ.BFZ'', [(''HHZ'', one_window 3)])])])]),
         (''m01'', [(''s00'', [(''e1'', [(''NZ.BFZ'', [(''HHZ'', one_window 2)])])])])])"
proof -
  let ?ms = "[''m00'', ''m01'']"
  let ?st = "[(''m00'', [''s00'']), (''m01'', [''s00''])]"
  let ?self = "missing_model_index\<lparr>models := Some ?ms, steps := Some ?st\<rparr>"
  have ax: "axes_known ?self ?ms ?st"
    by (simp add: axes_known_def)
  have d1: "distinct (keys (misfits ?self))"
    by (simp add: missing_model_index_def Inspector_def)
  have c1: "steps_covered ?ms ?st (misfits ?self)"
    by (simp add: steps_covered_def missing_model_index_def Inspector_def)
  have d2: "distinct (keys (windows ?self))"
    by (simp add: missing_model_index_def Inspector_def)
  have c2: "steps_covered ?ms ?st (windows ?self)"
    by (simp add: steps_covered_def missing_model_index_def Inspector_def)
  have r1: "reindex_by_model ?ms ?st (misfits missing_model_index) =
        [(''m00'', [(''s00'', [(''e1'', [(''NZ.BFZ'', \<lparr>msft = 1, nwin = 2\<rparr>)]),
                              (''e2'', [(''NZ.BFZ'', \<lparr>msft = 3, nwin = 1\<rparr>)])])]),
         (''m01'', [(''s00'', [(''e1'', [(''NZ.BFZ'', \<lparr>msft = 2, nwin = 2\<rparr>)])])])]"
    by (simp add: reindex_by_model_def slice_Cons missing_model_index_def Inspector_def)
  have r2: "reindex_by_model ?ms ?st (windows missing_model_index) =
        [(''m00'', [(''s00'', [(''e1'', [(''NZ.BFZ'', [(''HHZ'', one_window 1)])]),
                              (''e2'', [(''NZ.BFZ'', [(''HHZ'', one_window 3)])])])]),
         (''m01'', [(''s00'', [(''e1'', [(''NZ.BFZ'', [(''HHZ'', one_window 2)])])])])]"
    by (simp add: reindex_by_model_def slice_Cons missing_model_index_def Inspector_def)
  from sort_by_model_omits_missing_model [OF ax] ax d1 c1 d2 c2 r1 r2
  show ?thesis by simp
qed

theorem sort_by_model_missing_step_raises:
  "get_info missing_step_index =
     Inr (missing_step_index\<lparr>stations := Some [], events := Some [],
            models := Some [''m00''], steps := Some [(''m00'', [''s00'', ''s01''])],
            iterations := 2\<rparr>)
   \<and> sort_by_model (missing_step_index\<lparr>stations := Some [], events := Some [],
            models := Some [''m00''], steps := Some [(''m00'', [''s00'', ''s01''])],
            iterations := 2\<rparr>) ''misfits'' = Inl KeyError"
  by (simp add: get_info_def missing_step_index_def Inspector_def sort_by_model_def
      sort_by_model_of_def dict_comp_def events_of_def getitem_def setitem_def)

section \<open>Properties of \<open>_get_info\<close>\<close>

lemma get_info_partitions: "axes_partitioned (info_state (get_info self))"
proof (cases "misfits self")
  case Nil
  then show ?thesis
    by (auto simp: get_info_def Let_def info_state_def axes_partitioned_def)
next
  case (Cons a rest)
  obtain event by_model where "a = (event, by_model)" by (cases a)
  with Cons show ?thesis
    by (auto simp: get_info_def Let_def info_state_def axes_partitioned_def)
qed

text \<open>
  Claim C9.  After any sequence of \<open>append\<close> calls, \<open>_get_info\<close> leaves an Event list
  whose keys contain no \<open>"."\<close> and a Station list whose keys all contain \<open>"."\<close>; a key of
  \<open>srcrcv\<close> is in the one or the other by that test alone.
\<close>

theorem events_stations_partition:
  "axes_partitioned (info_state (get_info (appends ext calls self)))"
  by (rule get_info_partitions)

lemma get_windows_example:
  "get_windows example_env (Inspector (-60)) example_ds =
     Inr (Inspector (-60)\<lparr>windows := windows example_state\<rparr>)"
  by (simp add: get_windows_def example_env_def example_ds_def write_back_def add_window_def
      or_raise_def getitem_def setitem_def Inspector_def example_state_def Let_def)

lemma get_srcrcv_example:
  "get_srcrcv example_env (Inspector (-60)\<lparr>windows := windows example_state\<rparr>) example_ds =
     Inr (Inspector (-60)\<lparr>windows := windows example_state, srcrcv := srcrcv example_state\<rparr>)"
  by (simp add: get_srcrcv_def example_env_def example_ds_def write_back_def add_receiver_def
      or_raise_def getitem_def setitem_def num_def Inspector_def example_state_def Let_def)

lemma get_misfits_example:
  "get_misfits example_env
     (Inspector (-60)\<lparr>windows := windows example_state, srcrcv := srcrcv example_state\<rparr>)
     example_ds = Inr example_state"
  by (simp add: get_misfits_def example_env_def example_ds_def write_back_def step_misfits_def
      add_station_def scale_station_def getitem_def setitem_def Inspector_def example_state_def Let_def)

lemma append_example:
  "append example_env (Inspector (-60)) ''2018p130600.h5'' True True True = Inr (1, example_state)"
proof -
  have "ASDFDataSet example_env ''2018p130600.h5'' = Inr example_ds"
    by (simp add: example_env_def)
  then show ?thesis
    by (simp add: append_def get_windows_example get_srcrcv_example get_misfits_example)
qed


lemma appends_example:
  "appends example_env [(''2018p130600.h5'', True, True, True)] (Inspector (-60)) = example_state"
  by (simp add: appends_def append_example state_after_def)

lemma get_info_example:
  "get_info example_state =
     Inr (example_state\<lparr>stations := Some [''NZ.BFZ''], events := Some [''2018p130600''],
            models := Some [''m00''], steps := Some [(''m00'', [''s00''])], iterations := 1\<rparr>)"
  by (simp add: get_info_def example_state_def Let_def)

theorem events_stations_partition_witness:
  "axes_partitioned
     (info_state (get_info
        (appends example_env [(''2018p130600.h5'', True, True, True)] (Inspector (-60)))))
   \<and> events (info_state (get_info
        (appends example_env [(''2018p130600.h5'', True, True, True)] (Inspector (-60)))))
       = Some [''2018p130600'']
   \<and> stations (info_state (get_info
        (appends example_env [(''2018p130600.h5'', True, True, True)] (Inspector (-60)))))
       = Some [''NZ.BFZ'']"
  using events_stations_partition
    [of example_env "[(''2018p130600.h5'', True, True, True)]" "Inspector (-60)"]
  by (simp add: appends_example get_info_example info_state_def)

section \<open>Properties of \<open>get_misfits\<close>\<close>

lemma first_occurrences_Nil [simp]: "first_occurrences [] = []"
  by (simp add: first_occurrences_def)

lemma first_occurrences_snoc:
  "first_occurrences (xs @ [x]) =
     (if x \<in> set xs then first_occurrences xs else first_occurrences xs @ [x])"
  by (simp add: first_occurrences_def)

lemma set_first_occurrences [simp]: "set (first_occurrences xs) = set xs"
  by (simp add: first_occurrences_def)

lemma distinct_first_occurrences [simp]: "distinct (first_occurrences xs)"
  by (simp add: first_occurrences_def)

lemma raw_total_snoc:
  "raw_total (records @ [r]) sta =
     raw_total records sta + (if station_id r = sta then misfit_value r else 0)"
  by (simp add: raw_total_def)

lemma raw_total_absent:
  "sta \<notin> station_id ` set records \<Longrightarrow> raw_total records sta = 0"
proof -
  assume "sta \<notin> station_id ` set records"
  then have "filter (\<lambda>r. station_id r = sta) records = []"
    by (induction records) auto
  then show ?thesis by (simp add: raw_total_def)
qed

lemma keys_summed [simp]:
  "keys (summed_misfits num_win records) = first_occurrences (map station_id records)"
  by (simp add: summed_misfits_def)

lemma map_of_map_pair:
  "k \<in> set ks \<Longrightarrow> map_of (map (\<lambda>k. (k, g k)) ks) k = Some (g k)"
  by (induction ks) auto

lemma setitem_map_pair:
  "k \<in> set ks \<Longrightarrow>
   setitem (map (\<lambda>k. (k, g k)) ks) k v = map (\<lambda>k'. (k', if k' = k then v else g k')) ks"
  by (simp add: setitem_def)


lemma setitem_snoc_same:
  "k \<notin> set (keys d) \<Longrightarrow> setitem (d @ [(k, v)]) k v' = d @ [(k, v')]"
proof -
  assume nk: "k \<notin> set (keys d)"
  then have "map (\<lambda>(k', v''). if k' = k then (k', v') else (k', v'')) d = d"
    by (induction d) (auto simp: keys_def)
  then show ?thesis by (simp add: setitem_def)
qed

lemma map_of_snoc_fresh:
  "k \<notin> set (keys d) \<Longrightarrow> map_of (d @ [(k, v)]) k = Some v"
  by (induction d) (auto simp: keys_def)

lemma add_station_step:
  assumes n: "map_of num_win (station_id r) = Some n"
  shows "add_station num_win r (summed_misfits num_win seen)
         = Inr (summed_misfits num_win (seen @ [r]))"
proof -
  let ?sid = "station_id r"
  let ?K = "first_occurrences (map station_id seen)"
  let ?g = "\<lambda>sta. \<lparr>msft = raw_total seen sta, nwin = window_count num_win sta\<rparr>"
  let ?D = "summed_misfits num_win seen"
  have D: "?D = map (\<lambda>k. (k, ?g k)) ?K" by (simp add: summed_misfits_def)
  have cnt: "window_count num_win ?sid = n" using n by (simp add: window_count_def)
  show ?thesis
  proof (cases "?sid \<in> set ?K")
    case True
    have get: "getitem ?D ?sid = Inr (?g ?sid)"
      unfolding D getitem_def using map_of_map_pair [OF True, of ?g] by simp
    have set: "setitem ?D ?sid ((?g ?sid)\<lparr>msft := msft (?g ?sid) + misfit_value r\<rparr>)
        = map (\<lambda>k'. (k', if k' = ?sid then (?g ?sid)\<lparr>msft := msft (?g ?sid) + misfit_value r\<rparr>
                              else ?g k')) ?K"
      unfolding D using True by (rule setitem_map_pair)
    have rhs: "summed_misfits num_win (seen @ [r])
        = map (\<lambda>k'. (k', if k' = ?sid then (?g ?sid)\<lparr>msft := msft (?g ?sid) + misfit_value r\<rparr>
                              else ?g k')) ?K"
      using True by (simp add: summed_misfits_def first_occurrences_snoc raw_total_snoc)
    have "?sid \<in> set (keys ?D)" using True by simp
    then show ?thesis
      using get set rhs by (simp add: add_station_def Let_def)
  next
    case False
    then have fresh: "?sid \<notin> set (keys ?D)" by simp
    have zero: "raw_total seen ?sid = 0"
      using False by (intro raw_total_absent) simp
    have others: "map (\<lambda>sta. (sta, \<lparr>msft = raw_total (seen @ [r]) sta,
                                     nwin = window_count num_win sta\<rparr>)) ?K
        = map (\<lambda>k. (k, ?g k)) ?K"
    proof (rule map_cong [OF refl])
      fix k assume "k \<in> set ?K"
      with False have "k \<noteq> ?sid" by blast
      then show "(k, \<lparr>msft = raw_total (seen @ [r]) k, nwin = window_count num_win k\<rparr>)
                 = (k, ?g k)"
        by (simp add: raw_total_snoc)
    qed
    have rhs: "summed_misfits num_win (seen @ [r])
        = ?D @ [(?sid, \<lparr>msft = 0 + misfit_value r, nwin = n\<rparr>)]"
      using False others zero cnt
      by (simp add: summed_misfits_def first_occurrences_snoc raw_total_snoc)
    have s1: "setitem ?D ?sid \<lparr>msft = 0, nwin = n\<rparr> = ?D @ [(?sid, \<lparr>msft = 0, nwin = n\<rparr>)]"
      using fresh by (rule setitem_fresh)
    have g1: "getitem (?D @ [(?sid, \<lparr>msft = 0, nwin = n\<rparr>)]) ?sid = Inr \<lparr>msft = 0, nwin = n\<rparr>"
      using map_of_snoc_fresh [OF fresh] by (simp add: getitem_def)
    have s2: "setitem (?D @ [(?sid, \<lparr>msft = 0, nwin = n\<rparr>)]) ?sid
                \<lparr>msft = 0 + misfit_value r, nwin = n\<rparr>
              = ?D @ [(?sid, \<lparr>msft = 0 + misfit_value r, nwin = n\<rparr>)]"
      using fresh by (rule setitem_snoc_same)
    show ?thesis
      using fresh n s1 g1 s2 rhs by (simp add: add_station_def Let_def getitem_def)
  qed
qed


lemma add_station_loop:
  assumes "\<And>r. r \<in> set records \<Longrightarrow> \<exists>n. map_of num_win (station_id r) = Some n"
  shows "for_loop_st (add_station num_win) records (summed_misfits num_win seen)
         = Inr (summed_misfits num_win (seen @ records))"
  using assms
proof (induction records arbitrary: seen)
  case Nil
  show ?case by simp
next
  case (Cons r records)
  from Cons.prems [of r] obtain n where n: "map_of num_win (station_id r) = Some n" by auto
  have "for_loop_st (add_station num_win) records (summed_misfits num_win (seen @ [r]))
         = Inr (summed_misfits num_win ((seen @ [r]) @ records))"
    using Cons.prems by (intro Cons.IH) simp
  then show ?case
    using add_station_step [OF n, of "seen"] by simp
qed

lemma scale_station_upd:
  assumes "distinct (keys by_sta)" and "map_of by_sta sta_id = Some r" and "nwin r \<noteq> 0"
  shows "scale_station sta_id by_sta
         = Inr (upd by_sta sta_id (\<lambda>r. r\<lparr>msft := msft r / real_of_int (2 * nwin r)\<rparr>))"
proof -
  have "sta_id \<in> set (keys by_sta)" using assms(2) by (rule map_of_keys)
  then have "setitem by_sta sta_id (r\<lparr>msft := msft r / real_of_int (2 * nwin r)\<rparr>)
      = upd by_sta sta_id (\<lambda>u. r\<lparr>msft := msft r / real_of_int (2 * nwin r)\<rparr>)"
    by (rule setitem_upd)
  also have "\<dots> = upd by_sta sta_id (\<lambda>r. r\<lparr>msft := msft r / real_of_int (2 * nwin r)\<rparr>)"
    using assms(1,2)
    by (rule upd_cong_value [where f = "\<lambda>r. r\<lparr>msft := msft r / real_of_int (2 * nwin r)\<rparr>"])
  finally show ?thesis
    using assms(2,3) by (simp add: scale_station_def getitem_def)
qed

lemma map_of_upd:
  "map_of (upd d k f) k' = (if k' = k then map_option f (map_of d k') else map_of d k')"
  by (induction d) (auto simp: upd_def)

lemma scale_station_loop:
  assumes "distinct ks" and "distinct (keys by_sta)" and "set ks \<subseteq> set (keys by_sta)"
    and "\<And>k r. map_of by_sta k = Some r \<Longrightarrow> nwin r \<noteq> 0"
  shows "for_loop_st scale_station ks by_sta
         = Inr (map (\<lambda>p. if fst p \<in> set ks
                          then (fst p, (snd p)\<lparr>msft := msft (snd p) / real_of_int (2 * nwin (snd p))\<rparr>)
                          else p) by_sta)"
  using assms
proof (induction ks arbitrary: by_sta)
  case Nil
  show ?case by simp
next
  case (Cons k ks)
  let ?f = "\<lambda>r::misfit_rec. r\<lparr>msft := msft r / real_of_int (2 * nwin r)\<rparr>"
  from Cons.prems(3) have "k \<in> set (keys by_sta)" by simp
  then obtain r where r: "map_of by_sta k = Some r" by (auto simp: in_keys_map_of)
  have step: "scale_station k by_sta = Inr (upd by_sta k ?f)"
    using Cons.prems(2) r Cons.prems(4) [OF r] by (rule scale_station_upd)
  have nz: "\<And>k' r'. map_of (upd by_sta k ?f) k' = Some r' \<Longrightarrow> nwin r' \<noteq> 0"
  proof -
    fix k' r' assume a: "map_of (upd by_sta k ?f) k' = Some r'"
    show "nwin r' \<noteq> 0"
    proof (cases "k' = k")
      case True
      with a r have "r' = ?f r" by (simp add: map_of_upd)
      with Cons.prems(4) [OF r] show ?thesis by simp
    next
      case False
      with a have "map_of by_sta k' = Some r'" by (simp add: map_of_upd)
      then show ?thesis by (rule Cons.prems(4))
    qed
  qed
  have IH: "for_loop_st scale_station ks (upd by_sta k ?f)
         = Inr (map (\<lambda>p. if fst p \<in> set ks then (fst p, ?f (snd p)) else p) (upd by_sta k ?f))"
    using Cons.prems(1,2,3) nz by (intro Cons.IH) auto
  have "map (\<lambda>p. if fst p \<in> set ks then (fst p, ?f (snd p)) else p) (upd by_sta k ?f)
      = map (\<lambda>p. if fst p \<in> set (k # ks) then (fst p, ?f (snd p)) else p) by_sta"
    using Cons.prems(1) by (induction by_sta) (auto simp: upd_def)
  with step IH show ?case by simp
qed


lemma step_misfits_scaled:
  assumes nw: "count_misfit_windows ext ds model step = Inr num_win"
    and nz: "\<And>r. r \<in> set records \<Longrightarrow> window_count num_win (station_id r) \<noteq> 0"
  shows "step_misfits ext ds model step records = Inr (scaled_misfits num_win records)"
proof -
  let ?f = "\<lambda>r::misfit_rec. r\<lparr>msft := msft r / real_of_int (2 * nwin r)\<rparr>"
  let ?D = "summed_misfits num_win records"
  have present: "\<exists>n. map_of num_win (station_id r) = Some n" if "r \<in> set records" for r
    using nz [OF that] by (cases "map_of num_win (station_id r)") (simp_all add: window_count_def)
  have "for_loop_st (add_station num_win) records (summed_misfits num_win [])
         = Inr (summed_misfits num_win ([] @ records))"
    using present by (rule add_station_loop)
  then have acc: "for_loop_st (add_station num_win) records [] = Inr ?D"
    by (simp add: summed_misfits_def)
  have nz': "nwin r \<noteq> 0" if "map_of ?D k = Some r" for k r
  proof -
    from that have "(k, r) \<in> set ?D" by (rule map_of_SomeD)
    then obtain sta where "sta \<in> set (map station_id records)"
      and "r = \<lparr>msft = raw_total records sta, nwin = window_count num_win sta\<rparr>"
      by (auto simp: summed_misfits_def)
    then show ?thesis using nz by auto
  qed
  have "for_loop_st scale_station (keys ?D) ?D
         = Inr (map (\<lambda>p. if fst p \<in> set (keys ?D) then (fst p, ?f (snd p)) else p) ?D)"
    using nz' by (intro scale_station_loop) simp_all
  also have "map (\<lambda>p. if fst p \<in> set (keys ?D) then (fst p, ?f (snd p)) else p) ?D
      = scaled_misfits num_win records"
    by (simp add: summed_misfits_def scaled_misfits_def)
  finally show ?thesis
    using nw acc by (simp add: step_misfits_def)
qed

lemma for_loop_st_write_back:
  assumes "distinct (keys xs)" and "set (keys xs) \<inter> set (keys acc) = {}"
    and "\<And>k x. (k, x) \<in> set xs \<Longrightarrow> F k x = Inr (G k x)"
  shows "for_loop_st (\<lambda>(k, x) acc. write_back (setitem acc k) (F k x)) xs acc
         = Inr (acc @ map (\<lambda>(k, x). (k, G k x)) xs)"
  using assms
proof (induction xs arbitrary: acc)
  case Nil
  show ?case by simp
next
  case (Cons a xs)
  obtain k x where a: "a = (k, x)" by (cases a)
  have F: "F k x = Inr (G k x)" using Cons.prems(3) a by simp
  have fresh: "k \<notin> set (keys acc)" using Cons.prems(2) a by auto
  have d: "distinct (keys xs)" and nk: "k \<notin> set (keys xs)" using Cons.prems(1) a by auto
  have disj: "set (keys xs) \<inter> set (keys (acc @ [(k, G k x)])) = {}"
    using Cons.prems(2) nk a by auto
  have "for_loop_st (\<lambda>(k, x) acc. write_back (setitem acc k) (F k x)) xs (acc @ [(k, G k x)])
        = Inr ((acc @ [(k, G k x)]) @ map (\<lambda>(k, x). (k, G k x)) xs)"
    using d disj Cons.prems(3) by (intro Cons.IH) auto
  then show ?case
    using a F fresh by (simp add: write_back_def setitem_fresh)
qed


lemma counts_okD:
  "counts_ok ext ds \<Longrightarrow> (model, by_step) \<in> set (AdjointSources ds) \<Longrightarrow>
   (step, records) \<in> set by_step \<Longrightarrow>
   case count_misfit_windows ext ds model step of
     Inl err \<Rightarrow> False
   | Inr num_win \<Rightarrow> (\<forall>r \<in> set records. window_count num_win (station_id r) \<noteq> 0)"
  unfolding counts_ok_def
  apply (drule (1) bspec)
  apply simp
  apply (drule (1) bspec)
  apply simp
  done

lemma names_distinctD:
  "names_distinct aux \<Longrightarrow> (model, by_step) \<in> set aux \<Longrightarrow> distinct (keys by_step)"
  unfolding names_distinct_def
  apply (elim conjE)
  apply (drule (1) bspec)
  apply simp
  done

text \<open>
  Claim C1.  When \<open>get_misfits\<close> ingests a dataset (the counts are there and not 0),
  the misfit stored for each event, model, step and station is the sum of the raw
  contributions of that station divided by twice its window count, and the stored
  window count is that count.
\<close>

theorem get_misfits_scaled:
  assumes names: "names_distinct (AdjointSources ds)" and counts: "counts_ok ext ds"
  shows "get_misfits ext self ds =
     Inr (self\<lparr>misfits := setitem (misfits self) (event_id ext ds)
        (map (\<lambda>(model, by_step).
                (model, map (\<lambda>(step, records).
                          (step, scaled_misfits (window_counts ext ds model step) records))
                        by_step))
             (AdjointSources ds))\<rparr>)"
proof -
  let ?G = "\<lambda>model step records. scaled_misfits (window_counts ext ds model step) records"
  let ?F = "\<lambda>model by_step_ds.
      for_loop_st (\<lambda>(step, records) by_step.
                write_back (setitem by_step step) (step_misfits ext ds model step records))
              by_step_ds []"
  have inner: "?F model by_step = Inr (map (\<lambda>(step, records). (step, ?G model step records)) by_step)"
    if m: "(model, by_step) \<in> set (AdjointSources ds)" for model by_step
  proof -
    have d: "distinct (keys by_step)" using names m by (rule names_distinctD)
    have "for_loop_st (\<lambda>(step, records) by_step'.
                write_back (setitem by_step' step) (step_misfits ext ds model step records))
              by_step []
        = Inr ([] @ map (\<lambda>(step, records). (step, ?G model step records)) by_step)"
    proof (rule for_loop_st_write_back [OF d])
      show "set (keys by_step) \<inter> set (keys []) = {}" by simp
    next
      fix step records
      assume s: "(step, records) \<in> set by_step"
      from counts_okD [OF counts m s]
      obtain num_win where nw: "count_misfit_windows ext ds model step = Inr num_win"
        and nz: "\<forall>r \<in> set records. window_count num_win (station_id r) \<noteq> 0"
        by (cases "count_misfit_windows ext ds model step") simp_all
      have "step_misfits ext ds model step records = Inr (scaled_misfits num_win records)"
        using nw nz by (intro step_misfits_scaled) simp_all
      with nw show "step_misfits ext ds model step records = Inr (?G model step records)"
        by (simp add: window_counts_def)
    qed
    then show ?thesis by simp
  qed
  have d: "distinct (keys (AdjointSources ds))" using names by (simp add: names_distinct_def)
  have "for_loop_st (\<lambda>(model, by_step_ds) by_model.
           write_back (setitem by_model model) (?F model by_step_ds)) (AdjointSources ds) []
      = Inr ([] @ map (\<lambda>(model, by_step).
                (model, map (\<lambda>(step, records). (step, ?G model step records)) by_step))
             (AdjointSources ds))"
    by (rule for_loop_st_write_back [OF d]) (simp_all add: inner)
  then show ?thesis
    by (simp add: get_misfits_def Let_def write_back_def)
qed

theorem get_misfits_scaled_witness:
  "names_distinct (AdjointSources example_ds) \<and> counts_ok example_env example_ds
   \<and> get_misfits example_env (Inspector (-60)) example_ds =
       Inr (Inspector (-60)
         \<lparr>misfits := [(''2018p130600'',
             [(''m00'', [(''s00'', [(''NZ.BFZ'', \<lparr>msft = (2 + 3) / (2 * 5), nwin = 5\<rparr>)])])])]\<rparr>)"
proof -
  have a: "names_distinct (AdjointSources example_ds)"
    by (simp add: names_distinct_def example_ds_def)
  have b: "counts_ok example_env example_ds"
    by (simp add: counts_ok_def example_ds_def example_env_def window_count_def)
  have c: "scaled_misfits [(''NZ.BFZ'', 5)]
             [\<lparr>station_id = ''NZ.BFZ'', misfit_value = 2\<rparr>,
              \<lparr>station_id = ''NZ.BFZ'', misfit_value = 3\<rparr>]
           = [(''NZ.BFZ'', \<lparr>msft = (2 + 3) / (2 * 5), nwin = 5\<rparr>)]"
    by (simp add: scaled_misfits_def first_occurrences_def raw_total_def window_count_def)
  from get_misfits_scaled [OF a b, of "Inspector (-60)"] a b c show ?thesis
    by (simp add: example_ds_def example_env_def window_counts_def Inspector_def setitem_def)
qed

section \<open>In-place updates of two-level dictionaries\<close>

lemma upd_upd: "upd (upd d k f) k g = upd d k (\<lambda>v. g (f v))"
  by (induction d) (auto simp: upd_def)

lemma upd_id: "upd d k (\<lambda>v. v) = d"
  by (induction d) (auto simp: upd_def)

lemma upd2_upd2: "upd2 (upd2 d m s f) m s g = upd2 d m s (\<lambda>v. g (f v))"
  by (simp add: upd2_def upd_upd)

lemma upd2_id: "upd2 d m s (\<lambda>v. v) = d"
  by (simp add: upd2_def upd_id)

lemma distinct_keys_setitem: "distinct (keys d) \<Longrightarrow> distinct (keys (setitem d k v))"
proof (cases "k \<in> set (keys d)")
  case True
  assume "distinct (keys d)"
  with True show ?thesis by (simp add: setitem_upd)
next
  case False
  assume "distinct (keys d)"
  with False show ?thesis by (simp add: setitem_fresh)
qed

lemma in_shapeD:
  assumes "in_shape (shape d) m s" and "wf_shape (shape d)"
  shows "\<exists>inner v. map_of d m = Some inner \<and> distinct (keys inner) \<and> map_of inner s = Some v
     \<and> distinct (keys d)"
proof -
  from assms(1) obtain p where p: "p \<in> set (shape d)" and pm: "fst p = m" and ps: "s \<in> set (snd p)"
    unfolding in_shape_def by (auto simp: case_prod_beta)
  from p obtain q where q: "q \<in> set d" and pq: "p = (fst q, keys (snd q))"
    by (auto simp: shape_def case_prod_beta)
  have dk: "distinct (keys d)" using assms(2) by (simp add: wf_shape_def keys_shape)
  have "fst q = m" using pq pm by simp
  then have "(m, snd q) = q" by (simp add: prod_eq_iff)
  with q have "(m, snd q) \<in> set d" by simp
  with dk have mo: "map_of d m = Some (snd q)" by (simp add: keys_def)
  have "\<forall>(m, ks) \<in> set (shape d). distinct ks" using assms(2) by (simp add: wf_shape_def)
  with p have "distinct (snd p)" by (auto simp: case_prod_beta)
  with pq have di: "distinct (keys (snd q))" by simp
  from ps pq have "s \<in> set (keys (snd q))" by simp
  then obtain v where "map_of (snd q) s = Some v" by (auto simp: in_keys_map_of)
  with mo di dk show ?thesis by blast
qed

lemma iadd2_upd2:
  assumes "wf_shape (shape d)" and "in_shape (shape d) m s"
  shows "iadd2 d m s x = Inr (upd2 d m s (\<lambda>v. v + x))"
proof -
  from in_shapeD [OF assms(2,1)] obtain inner v where mo: "map_of d m = Some inner"
    and di: "distinct (keys inner)" and so: "map_of inner s = Some v" and dk: "distinct (keys d)"
    by blast
  have s_in: "s \<in> set (keys inner)" using so by (rule map_of_keys)
  have m_in: "m \<in> set (keys d)" using mo by (rule map_of_keys)
  have "setitem inner s (v + x) = upd inner s (\<lambda>u. v + x)" using s_in by (rule setitem_upd)
  also have "\<dots> = upd inner s (\<lambda>v. v + x)"
    using di so by (rule upd_cong_value [where f = "\<lambda>v. v + x"])
  finally have i: "setitem inner s (v + x) = upd inner s (\<lambda>v. v + x)" .
  have "setitem d m (upd inner s (\<lambda>v. v + x)) = upd d m (\<lambda>u. upd inner s (\<lambda>v. v + x))"
    using m_in by (rule setitem_upd)
  also have "\<dots> = upd d m (\<lambda>inner. upd inner s (\<lambda>v. v + x))"
    using dk mo by (rule upd_cong_value [where f = "\<lambda>inner. upd inner s (\<lambda>v. v + x)"])
  finally show ?thesis
    using mo so i by (simp add: iadd2_def getitem_def upd2_def)
qed

lemma setitem2_upd2:
  assumes "wf_shape (shape d)" and "in_shape (shape d) m s"
  shows "setitem2 d m s x = Inr (upd2 d m s (\<lambda>v. x))"
proof -
  from in_shapeD [OF assms(2,1)] obtain inner v where mo: "map_of d m = Some inner"
    and di: "distinct (keys inner)" and so: "map_of inner s = Some v" and dk: "distinct (keys d)"
    by blast
  have s_in: "s \<in> set (keys inner)" using so by (rule map_of_keys)
  have m_in: "m \<in> set (keys d)" using mo by (rule map_of_keys)
  have i: "setitem inner s x = upd inner s (\<lambda>u. x)" using s_in by (rule setitem_upd)
  have "setitem d m (upd inner s (\<lambda>v. x)) = upd d m (\<lambda>u. upd inner s (\<lambda>v. x))"
    using m_in by (rule setitem_upd)
  also have "\<dots> = upd d m (\<lambda>inner. upd inner s (\<lambda>v. x))"
    using dk mo by (rule upd_cong_value [where f = "\<lambda>inner. upd inner s (\<lambda>v. x)"])
  finally show ?thesis
    using mo i by (simp add: setitem2_def getitem_def upd2_def)
qed


section \<open>Properties of \<open>measurements\<close>\<close>

lemma for_loop_foldl:
  assumes "I s" and "\<And>x s. x \<in> set xs \<Longrightarrow> I s \<Longrightarrow> body x s = Inr (F x s) \<and> I (F x s)"
  shows "for_loop body xs s = Inr (foldl (\<lambda>s x. F x s) s xs) \<and> I (foldl (\<lambda>s x. F x s) s xs)"
  using assms
proof (induction xs arbitrary: s)
  case Nil
  then show ?case by simp
next
  case (Cons x xs)
  have b: "body x s = Inr (F x s)" and i: "I (F x s)"
    using Cons.prems(2) [of x s] Cons.prems(1) by simp_all
  have "for_loop body xs (F x s) = Inr (foldl (\<lambda>s x. F x s) (F x s) xs)
        \<and> I (foldl (\<lambda>s x. F x s) (F x s) xs)"
    using i Cons.prems(2) by (intro Cons.IH) simp_all
  with b show ?case by simp
qed

lemma add_totals_0: "add_totals m s 0 0 st = st"
  by (cases st) (simp add: add_totals_def upd2_id)

lemma add_totals_add:
  "add_totals m s a' b' (add_totals m s a b st) = add_totals m s (a + a') (b + b') st"
  by (cases st) (simp add: add_totals_def upd2_upd2 add.assoc)

lemma shape_add_totals:
  "shape (fst (add_totals m s a b st)) = shape (fst st)
   \<and> shape (snd (add_totals m s a b st)) = shape (snd st)"
  by (cases st) (simp add: add_totals_def)

lemma foldl_add_totals:
  "foldl (\<lambda>st x. add_totals m s (gc x) (gn x) st) st xs
   = add_totals m s (sum_list (map gc xs)) (sum_list (map gn xs)) st"
proof (induction xs arbitrary: st)
  case Nil
  show ?case by (simp add: add_totals_0)
next
  case (Cons x xs)
  show ?case by (simp add: Cons.IH add_totals_add)
qed

lemma for_loop_add_totals:
  assumes "shape (fst st) = sh" and "shape (snd st) = sh"
    and "\<And>x st. x \<in> set xs \<Longrightarrow> shape (fst st) = sh \<Longrightarrow> shape (snd st) = sh \<Longrightarrow>
           body x st = Inr (add_totals m s (gc x) (gn x) st)"
  shows "for_loop body xs st
         = Inr (add_totals m s (sum_list (map gc xs)) (sum_list (map gn xs)) st)"
proof -
  have "for_loop body xs st = Inr (foldl (\<lambda>st x. add_totals m s (gc x) (gn x) st) st xs)
        \<and> (shape (fst (foldl (\<lambda>st x. add_totals m s (gc x) (gn x) st) st xs)) = sh
           \<and> shape (snd (foldl (\<lambda>st x. add_totals m s (gc x) (gn x) st) st xs)) = sh)"
  proof (rule for_loop_foldl [where I = "\<lambda>st::totals. shape (fst st) = sh \<and> shape (snd st) = sh"])
    show "shape (fst st) = sh \<and> shape (snd st) = sh" using assms(1,2) by simp
  next
    fix x and st' :: totals
    assume "x \<in> set xs" and "shape (fst st') = sh \<and> shape (snd st') = sh"
    then show "body x st' = Inr (add_totals m s (gc x) (gn x) st')
       \<and> (shape (fst (add_totals m s (gc x) (gn x) st')) = sh
          \<and> shape (snd (add_totals m s (gc x) (gn x) st')) = sh)"
      using assms(3) [of x st'] shape_add_totals [of m s "gc x" "gn x" st'] by simp
  qed
  then show ?thesis by (simp add: foldl_add_totals)
qed

lemma lengths_loop:
  assumes "wf_shape (shape cwl)" and "in_shape (shape cwl) m s"
  shows "for_loop (\<lambda>len cwl. iadd2 cwl m s len) lens cwl
         = Inr (upd2 cwl m s (\<lambda>v. v + sum_list lens))"
  using assms
proof (induction lens arbitrary: cwl)
  case Nil
  show ?case by (simp add: upd2_id)
next
  case (Cons len lens)
  have step: "iadd2 cwl m s len = Inr (upd2 cwl m s (\<lambda>v. v + len))"
    using Cons.prems by (rule iadd2_upd2)
  have "for_loop (\<lambda>len cwl. iadd2 cwl m s len) lens (upd2 cwl m s (\<lambda>v. v + len))
        = Inr (upd2 (upd2 cwl m s (\<lambda>v. v + len)) m s (\<lambda>v. v + sum_list lens))"
    using Cons.prems by (intro Cons.IH) simp_all
  with step show ?case by (simp add: upd2_upd2 add.assoc)
qed

lemma measure_channel_totals:
  assumes "wf_shape sh" and "in_shape sh m s" and "shape (fst st) = sh" and "shape (snd st) = sh"
  shows "measure_channel m s w st
         = Inr (add_totals m s (sum_list (length_s w)) (length (dlna w)) st)"
proof -
  obtain cwl now where st: "st = (cwl, now)" by (cases st)
  have c: "shape cwl = sh" and n: "shape now = sh" using assms(3,4) st by simp_all
  have 1: "iadd2 now m s (length (dlna w)) = Inr (upd2 now m s (\<lambda>v. v + length (dlna w)))"
    using assms(1,2) n by (intro iadd2_upd2) simp_all
  have 2: "for_loop (\<lambda>len cwl. iadd2 cwl m s len) (length_s w) cwl
         = Inr (upd2 cwl m s (\<lambda>v. v + sum_list (length_s w)))"
    using assms(1,2) c by (intro lengths_loop) simp_all
  show ?thesis
    using 1 2 st by (simp add: measure_channel_def add_totals_def)
qed


lemma measure_step_totals:
  assumes wf: "wf_shape sh" and ins: "in_shape sh m s"
    and c: "shape (fst st) = sh" and n: "shape (snd st) = sh"
  shows "measure_step m s by_event st
         = Inr (add_totals m s (window_seconds by_event) (window_number by_event) st)"
proof -
  have cha: "for_loop (\<lambda>(cha, w). measure_channel m s w) by_cha st'
      = Inr (add_totals m s (sum_list (map (\<lambda>(cha, w). sum_list (length_s w)) by_cha))
               (sum_list (map (\<lambda>(cha, w). length (dlna w)) by_cha)) st')"
    if "shape (fst st') = sh" and "shape (snd st') = sh"
    for by_cha :: "(string, window_rec) dict" and st' :: totals
    using that
  proof (rule for_loop_add_totals)
    fix x :: "string \<times> window_rec" and st'' :: totals
    assume "shape (fst st'') = sh" and "shape (snd st'') = sh"
    then show "(case x of (cha, w) \<Rightarrow> measure_channel m s w) st''
        = Inr (add_totals m s (case x of (cha, w) \<Rightarrow> sum_list (length_s w))
                 (case x of (cha, w) \<Rightarrow> length (dlna w)) st'')"
      using measure_channel_totals [OF wf ins, of st'' "snd x"] by (cases x) simp
  qed
  have sta: "for_loop (\<lambda>(sta, by_cha). for_loop (\<lambda>(cha, w). measure_channel m s w) by_cha) by_sta st'
      = Inr (add_totals m s
               (sum_list (map (\<lambda>(sta, by_cha).
                  sum_list (map (\<lambda>(cha, w). sum_list (length_s w)) by_cha)) by_sta))
               (sum_list (map (\<lambda>(sta, by_cha).
                  sum_list (map (\<lambda>(cha, w). length (dlna w)) by_cha)) by_sta)) st')"
    if "shape (fst st') = sh" and "shape (snd st') = sh"
    for by_sta :: sta_windows and st' :: totals
    using that
  proof (rule for_loop_add_totals)
    fix x :: "string \<times> (string, window_rec) dict" and st'' :: totals
    assume "shape (fst st'') = sh" and "shape (snd st'') = sh"
    then show "(case x of (sta, by_cha) \<Rightarrow>
                 for_loop (\<lambda>(cha, w). measure_channel m s w) by_cha) st''
        = Inr (add_totals m s
                 (case x of (sta, by_cha) \<Rightarrow>
                    sum_list (map (\<lambda>(cha, w). sum_list (length_s w)) by_cha))
                 (case x of (sta, by_cha) \<Rightarrow>
                    sum_list (map (\<lambda>(cha, w). length (dlna w)) by_cha)) st'')"
      using cha [of st'' "snd x"] by (cases x) simp
  qed
  have "for_loop (\<lambda>(event, by_sta).
       for_loop (\<lambda>(sta, by_cha).
         for_loop (\<lambda>(cha, w). measure_channel m s w) by_cha) by_sta) by_event st
      = Inr (add_totals m s
          (sum_list (map (\<lambda>(event, by_sta).
             sum_list (map (\<lambda>(sta, by_cha).
               sum_list (map (\<lambda>(cha, w). sum_list (length_s w)) by_cha)) by_sta)) by_event))
          (sum_list (map (\<lambda>(event, by_sta).
             sum_list (map (\<lambda>(sta, by_cha).
               sum_list (map (\<lambda>(cha, w). length (dlna w)) by_cha)) by_sta)) by_event)) st)"
    using c n
  proof (rule for_loop_add_totals)
    fix x :: "string \<times> sta_windows" and st'' :: totals
    assume "shape (fst st'') = sh" and "shape (snd st'') = sh"
    then show "(case x of (event, by_sta) \<Rightarrow>
       for_loop (\<lambda>(sta, by_cha).
         for_loop (\<lambda>(cha, w). measure_channel m s w) by_cha) by_sta) st''
        = Inr (add_totals m s
          (case x of (event, by_sta) \<Rightarrow>
             sum_list (map (\<lambda>(sta, by_cha).
               sum_list (map (\<lambda>(cha, w). sum_list (length_s w)) by_cha)) by_sta))
          (case x of (event, by_sta) \<Rightarrow>
             sum_list (map (\<lambda>(sta, by_cha).
               sum_list (map (\<lambda>(cha, w). length (dlna w)) by_cha)) by_sta)) st'')"
      using sta [of st'' "snd x"] by (cases x) simp
  qed
  then show ?thesis
    by (simp add: measure_step_def window_seconds_def window_number_def)
qed


lemma foldl_upd2_inner:
  "foldl (\<lambda>d (s, x). upd2 d m s (F x)) d xs
   = upd d m (\<lambda>inner. foldl (\<lambda>i (s, x). upd i s (F x)) inner xs)"
  unfolding upd2_def
proof (induction xs arbitrary: d)
  case Nil
  show ?case by (simp add: upd_id)
next
  case (Cons a xs)
  obtain s x where a: "a = (s, x)" by (cases a)
  show ?case by (simp add: a Cons.IH upd_upd)
qed

lemma foldl_upd_map:
  "distinct (keys xs) \<Longrightarrow>
   foldl (\<lambda>d (k, x). upd d k (F x)) d xs
   = map (\<lambda>p. case map_of xs (fst p) of None \<Rightarrow> p | Some x \<Rightarrow> (fst p, F x (snd p))) d"
proof (induction xs arbitrary: d)
  case Nil
  show ?case by simp
next
  case (Cons a xs)
  obtain k x where a: "a = (k, x)" by (cases a)
  have d: "distinct (keys xs)" and nk: "map_of xs k = None"
    using Cons.prems a by (simp_all add: map_of_eq_None_iff keys_def)
  have "map (\<lambda>p. case map_of xs (fst p) of None \<Rightarrow> p | Some x \<Rightarrow> (fst p, F x (snd p)))
          (upd d k (F x))
      = map (\<lambda>p. case map_of ((k, x) # xs) (fst p) of None \<Rightarrow> p
                   | Some x \<Rightarrow> (fst p, F x (snd p))) d"
    using nk by (induction d) (auto simp: upd_def)
  then show ?case
    using Cons.IH [OF d, of "upd d k (F x)"] a by simp
qed

lemma foldl_upd_zeros:
  assumes "distinct (keys xs)"
  shows "foldl (\<lambda>d (k, x). upd d k (F x)) (map (\<lambda>(k, x). (k, z x)) xs) xs
         = map (\<lambda>(k, x). (k, F x (z x))) xs"
proof -
  have "map (\<lambda>p. case map_of xs (fst p) of None \<Rightarrow> p | Some x \<Rightarrow> (fst p, F x (snd p)))
          (map (\<lambda>(k, x). (k, z x)) xs) = map (\<lambda>(k, x). (k, F x (z x))) xs"
    unfolding map_map
  proof (rule map_cong [OF refl])
    fix p assume p: "p \<in> set xs"
    obtain k x where kx: "p = (k, x)" by (cases p)
    with p assms have "map_of xs k = Some x" by (simp add: keys_def)
    with kx show "((\<lambda>p. case map_of xs (fst p) of None \<Rightarrow> p | Some x \<Rightarrow> (fst p, F x (snd p)))
             \<circ> (\<lambda>(k, x). (k, z x))) p = (case p of (k, x) \<Rightarrow> (k, F x (z x)))"
      by simp
  qed
  with foldl_upd_map [OF assms, of F "map (\<lambda>(k, x). (k, z x)) xs"] show ?thesis by simp
qed

text \<open>
  Starting from the dictionary that holds \<open>z\<close> under every (model, step), applying
  \<open>F\<close> of the view once per (model, step) leaves \<open>F view z\<close> there.
\<close>

lemma foldl_upd2_zeros:
  assumes wf: "wf_shape (shape w)"
  shows "foldl (\<lambda>d (m, by_step). foldl (\<lambda>d (s, x). upd2 d m s (F x)) d by_step)
           (map (\<lambda>(m, by_step). (m, map (\<lambda>(s, x). (s, z)) by_step)) w) w
         = map (\<lambda>(m, by_step). (m, map (\<lambda>(s, x). (s, F x z)) by_step)) w"
proof -
  let ?H = "\<lambda>by_step inner. foldl (\<lambda>i (s, x). upd i s (F x)) inner by_step"
  have dk: "distinct (keys w)" using wf by (simp add: wf_shape_def keys_shape)
  have di: "distinct (keys by_step)" if "(m, by_step) \<in> set w" for m by_step
  proof -
    have "\<forall>(m, ks) \<in> set (shape w). distinct ks" using wf by (simp add: wf_shape_def)
    moreover have "(m, keys by_step) \<in> set (shape w)"
      using that by (force simp: shape_def)
    ultimately show ?thesis by (auto simp: case_prod_beta)
  qed
  have "(\<lambda>d (m, by_step). foldl (\<lambda>d (s, x). upd2 d m s (F x)) d by_step)
      = (\<lambda>d (m, by_step). upd d m (?H by_step))"
    by (simp add: foldl_upd2_inner fun_eq_iff)
  then have "foldl (\<lambda>d (m, by_step). foldl (\<lambda>d (s, x). upd2 d m s (F x)) d by_step)
           (map (\<lambda>(m, by_step). (m, map (\<lambda>(s, x). (s, z)) by_step)) w) w
      = foldl (\<lambda>d (m, by_step). upd d m (?H by_step))
           (map (\<lambda>(m, by_step). (m, map (\<lambda>(s, x). (s, z)) by_step)) w) w"
    by (rule arg_cong [where f = "\<lambda>g. foldl g
           (map (\<lambda>(m, by_step). (m, map (\<lambda>(s, x). (s, z)) by_step)) w) w"])
  also have "\<dots> = map (\<lambda>(m, by_step). (m, ?H by_step (map (\<lambda>(s, x). (s, z)) by_step))) w"
    using dk by (rule foldl_upd_zeros)
  also have "\<dots> = map (\<lambda>(m, by_step). (m, map (\<lambda>(s, x). (s, F x z)) by_step)) w"
  proof (rule map_cong [OF refl])
    fix p assume p: "p \<in> set w"
    obtain m by_step where mb: "p = (m, by_step)" by (cases p)
    with p have "distinct (keys by_step)" using di by simp
    then have "?H by_step (map (\<lambda>(s, x). (s, z)) by_step) = map (\<lambda>(s, x). (s, F x z)) by_step"
      by (rule foldl_upd_zeros)
    with mb show "(case p of (m, by_step) \<Rightarrow> (m, ?H by_step (map (\<lambda>(s, x). (s, z)) by_step)))
        = (case p of (m, by_step) \<Rightarrow> (m, map (\<lambda>(s, x). (s, F x z)) by_step))"
      by simp
  qed
  finally show ?thesis .
qed


lemma set_setitem: "set (setitem d k v) \<subseteq> insert (k, v) (set d)"
  by (auto simp: setitem_def split: if_splits)

lemma for_loop_setitem_result:
  assumes "for_loop (\<lambda>k acc. case f k of Inl err \<Rightarrow> Inl err | Inr v \<Rightarrow> Inr (setitem acc k v)) ks acc
           = Inr r"
    and "distinct (keys acc)"
  shows "distinct (keys r) \<and> (\<forall>p \<in> set r. p \<in> set acc \<or> f (fst p) = Inr (snd p))"
  using assms
proof (induction ks arbitrary: acc)
  case Nil
  then show ?case by simp
next
  case (Cons k ks)
  from Cons.prems(1) obtain v where v: "f k = Inr v"
    and rest: "for_loop (\<lambda>k acc. case f k of Inl err \<Rightarrow> Inl err | Inr v \<Rightarrow> Inr (setitem acc k v))
                 ks (setitem acc k v) = Inr r"
    by (cases "f k") simp_all
  have d: "distinct (keys (setitem acc k v))"
    using Cons.prems(2) by (rule distinct_keys_setitem)
  from Cons.IH [OF rest d] have dr: "distinct (keys r)"
    and pr: "\<forall>p \<in> set r. p \<in> set (setitem acc k v) \<or> f (fst p) = Inr (snd p)"
    by simp_all
  have "p \<in> set acc \<or> f (fst p) = Inr (snd p)" if "p \<in> set r" for p
  proof -
    from pr that have "p \<in> set (setitem acc k v) \<or> f (fst p) = Inr (snd p)" by (rule bspec)
    then show ?thesis
    proof
      assume "p \<in> set (setitem acc k v)"
      with set_setitem [of acc k v] have "p = (k, v) \<or> p \<in> set acc" by auto
      with v show ?thesis by auto
    qed simp
  qed
  with dr show ?case by simp
qed

lemma dict_comp_result:
  assumes "dict_comp f ks = Inr r"
  shows "distinct (keys r)" and "\<And>k v. (k, v) \<in> set r \<Longrightarrow> f k = Inr v"
proof -
  from assms have "for_loop (\<lambda>k acc. case f k of Inl err \<Rightarrow> Inl err
                              | Inr v \<Rightarrow> Inr (setitem acc k v)) ks [] = Inr r"
    by (simp add: dict_comp_def)
  from for_loop_setitem_result [OF this]
  have a: "distinct (keys r)" and b: "\<forall>p \<in> set r. p \<in> set [] \<or> f (fst p) = Inr (snd p)"
    by simp_all
  show "distinct (keys r)" by (rule a)
  fix k v assume "(k, v) \<in> set r"
  with b have "(k, v) \<in> set [] \<or> f (fst (k, v)) = Inr (snd (k, v))" by (rule bspec)
  then show "f k = Inr v" by simp
qed

lemma sort_by_model_of_wf:
  assumes "sort_by_model_of self d = Inr w"
  shows "wf_shape (shape w)"
proof -
  from assms obtain ms where ms: "models self = Some ms"
    by (cases "models self") (simp_all add: sort_by_model_of_def)
  let ?f = "\<lambda>m. case steps self of
              None \<Rightarrow> Inl TypeError
            | Some st \<Rightarrow>
                (case getitem st m of
                   Inl err \<Rightarrow> Inl err
                 | Inr ss \<Rightarrow> dict_comp (\<lambda>s. events_of d m s) ss)"
  have w: "dict_comp ?f ms = Inr w" using assms ms by (simp add: sort_by_model_of_def)
  have dk: "distinct (keys w)" using w by (rule dict_comp_result(1))
  have "distinct ks" if "(m, ks) \<in> set (shape w)" for m ks
  proof -
    from that obtain by_step where mem: "(m, by_step) \<in> set w" and ks: "ks = keys by_step"
      by (auto simp: shape_def)
    from dict_comp_result(2) [OF w mem] have fm: "?f m = Inr by_step" .
    then obtain st where "steps self = Some st" by (cases "steps self") simp_all
    with fm obtain ss where "dict_comp (\<lambda>s. events_of d m s) ss = Inr by_step"
      by (cases "getitem st m") simp_all
    then have "distinct (keys by_step)" by (rule dict_comp_result(1))
    with ks show ?thesis by simp
  qed
  then have "\<forall>(m, ks) \<in> set (shape w). distinct ks" by auto
  with dk show ?thesis by (simp add: wf_shape_def keys_shape)
qed

lemma shape_zeros [simp]: "shape (zeros w) = shape w"
  by (induction w) (auto simp: zeros_def shape_def keys_def)

lemma in_shapeI:
  "(m, by_step) \<in> set w \<Longrightarrow> s \<in> set (keys by_step) \<Longrightarrow> in_shape (shape w) m s"
  unfolding in_shape_def shape_def by force

lemma add_totals_pair:
  "add_totals m s a b (c, n) = (upd2 c m s (\<lambda>v. v + a), upd2 n m s (\<lambda>v. v + b))"
  by (simp add: add_totals_def)

lemma foldl_add_totals_split:
  "foldl (\<lambda>st (s, x). add_totals m s (gc x) (gn x) st) (c, n) xs
   = (foldl (\<lambda>d (s, x). upd2 d m s (\<lambda>v. v + gc x)) c xs,
      foldl (\<lambda>d (s, x). upd2 d m s (\<lambda>v. v + gn x)) n xs)"
proof (induction xs arbitrary: c n)
  case Nil
  show ?case by simp
next
  case (Cons a xs)
  obtain s x where a: "a = (s, x)" by (cases a)
  show ?case by (simp add: a add_totals_pair Cons.IH)
qed

lemma foldl_add_totals_split2:
  "foldl (\<lambda>st (m, by_step). foldl (\<lambda>st (s, x). add_totals m s (gc x) (gn x) st) st by_step)
     (c, n) w
   = (foldl (\<lambda>d (m, by_step). foldl (\<lambda>d (s, x). upd2 d m s (\<lambda>v. v + gc x)) d by_step) c w,
      foldl (\<lambda>d (m, by_step). foldl (\<lambda>d (s, x). upd2 d m s (\<lambda>v. v + gn x)) d by_step) n w)"
proof (induction w arbitrary: c n)
  case Nil
  show ?case by simp
next
  case (Cons a w)
  obtain m by_step where a: "a = (m, by_step)" by (cases a)
  show ?case by (simp add: a foldl_add_totals_split Cons.IH)
qed

lemma shape_foldl_add_totals:
  "shape (fst (foldl (\<lambda>st (s, x). add_totals m s (gc x) (gn x) st) st xs)) = shape (fst st)
   \<and> shape (snd (foldl (\<lambda>st (s, x). add_totals m s (gc x) (gn x) st) st xs)) = shape (snd st)"
proof (induction xs arbitrary: st)
  case Nil
  show ?case by simp
next
  case (Cons a xs)
  obtain s x where a: "a = (s, x)" by (cases a)
  show ?case using shape_add_totals [of m s "gc x" "gn x" st] by (simp add: a Cons.IH)
qed

lemma measure_loops:
  assumes wf: "wf_shape (shape w)"
  shows "for_loop (\<lambda>(model, by_step).
           for_loop (\<lambda>(step, by_event). measure_step model step by_event) by_step)
         w (zeros w, zeros w)
       = Inr (map (\<lambda>(m, by_step). (m, map (\<lambda>(s, by_event). (s, window_seconds by_event)) by_step)) w,
              map (\<lambda>(m, by_step). (m, map (\<lambda>(s, by_event). (s, window_number by_event)) by_step)) w)"
proof -
  let ?I = "\<lambda>st::totals. shape (fst st) = shape w \<and> shape (snd st) = shape w"
  let ?Fs = "\<lambda>m (p :: string \<times> (string, sta_windows) dict) (st::totals).
      add_totals m (fst p) (window_seconds (snd p)) (window_number (snd p)) st"
  let ?Fm = "\<lambda>(p :: string \<times> (string, (string, sta_windows) dict) dict) (st::totals).
      foldl (\<lambda>st q. ?Fs (fst p) q st) st (snd p)"
  have step_level: "for_loop (\<lambda>(step, by_event). measure_step m step by_event) by_step st
        = Inr (foldl (\<lambda>st q. ?Fs m q st) st by_step)
        \<and> ?I (foldl (\<lambda>st q. ?Fs m q st) st by_step)"
    if mem: "(m, by_step) \<in> set w" and I: "?I st" for m by_step st
  proof (rule for_loop_foldl [where I = ?I, OF I])
    fix q :: "string \<times> (string, sta_windows) dict" and st' :: totals
    assume q: "q \<in> set by_step" and I': "?I st'"
    then have "fst q \<in> set (keys by_step)" by (simp add: keys_def)
    with mem have ins: "in_shape (shape w) m (fst q)" by (rule in_shapeI)
    have "measure_step m (fst q) (snd q) st' = Inr (?Fs m q st')"
      using wf ins I' by (intro measure_step_totals) simp_all
    moreover have "?I (?Fs m q st')"
      using I' shape_add_totals [of m "fst q" "window_seconds (snd q)" "window_number (snd q)" st']
      by simp
    ultimately show "(case q of (step, by_event) \<Rightarrow> measure_step m step by_event) st'
        = Inr (?Fs m q st') \<and> ?I (?Fs m q st')"
      by (simp add: case_prod_beta)
  qed
  have "for_loop (\<lambda>(model, by_step).
           for_loop (\<lambda>(step, by_event). measure_step model step by_event) by_step)
         w (zeros w, zeros w)
       = Inr (foldl (\<lambda>st p. ?Fm p st) (zeros w, zeros w) w)
       \<and> ?I (foldl (\<lambda>st p. ?Fm p st) (zeros w, zeros w) w)"
  proof (rule for_loop_foldl [where I = ?I])
    show "?I (zeros w, zeros w)" by simp
  next
    fix p :: "string \<times> (string, (string, sta_windows) dict) dict" and st' :: totals
    assume p: "p \<in> set w" and I': "?I st'"
    then have "(fst p, snd p) \<in> set w" by simp
    from step_level [OF this I']
    show "(case p of (model, by_step) \<Rightarrow>
             for_loop (\<lambda>(step, by_event). measure_step model step by_event) by_step) st'
          = Inr (?Fm p st') \<and> ?I (?Fm p st')"
      by (simp add: case_prod_beta)
  qed
  then have loop: "for_loop (\<lambda>(model, by_step).
           for_loop (\<lambda>(step, by_event). measure_step model step by_event) by_step)
         w (zeros w, zeros w)
       = Inr (foldl (\<lambda>st p. ?Fm p st) (zeros w, zeros w) w)"
    by (rule conjunct1)
  have conv: "(\<lambda>st p. ?Fm p st)
      = (\<lambda>st (m, by_step).
                foldl (\<lambda>st (s, x). add_totals m s (window_seconds x) (window_number x) st)
                  st by_step)"
    by (simp add: case_prod_unfold)
  have "for_loop (\<lambda>(model, by_step).
           for_loop (\<lambda>(step, by_event). measure_step model step by_event) by_step)
         w (zeros w, zeros w)
       = Inr (foldl (\<lambda>st (m, by_step).
                foldl (\<lambda>st (s, x). add_totals m s (window_seconds x) (window_number x) st)
                  st by_step) (zeros w, zeros w) w)"
    using loop unfolding conv .
  also have "foldl (\<lambda>st (m, by_step).
                foldl (\<lambda>st (s, x). add_totals m s (window_seconds x) (window_number x) st)
                  st by_step) (zeros w, zeros w) w
      = (map (\<lambda>(m, by_step). (m, map (\<lambda>(s, by_event). (s, window_seconds by_event)) by_step)) w,
         map (\<lambda>(m, by_step). (m, map (\<lambda>(s, by_event). (s, window_number by_event)) by_step)) w)"
    using foldl_upd2_zeros [OF wf, of "\<lambda>x v. v + window_seconds x" 0]
      foldl_upd2_zeros [OF wf, of "\<lambda>x v. v + window_number x" 0]
    by (simp add: foldl_add_totals_split2 zeros_def)
  finally show ?thesis .
qed


text \<open>The totals of every (model, step) of the model-major view that \<open>sort_by_model\<close> returns.\<close>

lemma measurements_of_view:
  assumes "get_str self = Inr ()" and "sort_by_model_of self (windows self) = Inr w"
  shows "measurements self ''cum_win_len''
           = Inr (Cumulative_window_length
               (map (\<lambda>(m, by_step). (m, map (\<lambda>(s, by_event). (s, window_seconds by_event)) by_step)) w))
       \<and> measurements self ''num_windows''
           = Inr (Number_of_windows
               (map (\<lambda>(m, by_step). (m, map (\<lambda>(s, by_event). (s, window_number by_event)) by_step)) w))"
proof -
  have "wf_shape (shape w)" using assms(2) by (rule sort_by_model_of_wf)
  then show ?thesis
    using assms by (simp add: measurements_def measure_loops)
qed

text \<open>
  Claim C8, as the code has it.  With the axis metadata derived (the lists of events
  and stations are there, the models are \<open>ms\<close> and their steps \<open>st\<close>), and every event
  that holds windows for a listed model holding each step listed for it, for every
  listed (model, step) \<open>measurements("cum_win_len")\<close> returns the sum of the window
  lengths, and \<open>measurements("num_windows")\<close> the number of windows, across all events,
  stations and channels that hold windows there.
\<close>

theorem measurements_totals:
  assumes "axes_known self ms st" and "events self \<noteq> None" and "stations self \<noteq> None"
    and "distinct (keys (windows self))" and "steps_covered ms st (windows self)"
  shows "measurements self ''cum_win_len''
           = Inr (Cumulative_window_length
               (map (\<lambda>m. (m, map (\<lambda>s. (s, window_seconds (slice (windows self) m s)))
                              (case map_of st m of None \<Rightarrow> [] | Some ss \<Rightarrow> ss))) ms))
       \<and> measurements self ''num_windows''
           = Inr (Number_of_windows
               (map (\<lambda>m. (m, map (\<lambda>s. (s, window_number (slice (windows self) m s)))
                              (case map_of st m of None \<Rightarrow> [] | Some ss \<Rightarrow> ss))) ms))"
proof -
  have "models self = Some ms" using assms(1) by (simp add: axes_known_def)
  with assms(2,3) have g: "get_str self = Inr ()"
    by (auto simp: get_str_def)
  have w: "sort_by_model_of self (windows self) = Inr (reindex_by_model ms st (windows self))"
    using assms(1,4,5) by (rule sort_by_model_of_reindex)
  from measurements_of_view [OF g w] show ?thesis
    by (simp add: reindex_by_model_def comp_def)
qed

theorem measurements_totals_witness:
  "axes_known two_channel_index [''m00''] [(''m00'', [''s00''])]
   \<and> events two_channel_index \<noteq> None \<and> stations two_channel_index \<noteq> None
   \<and> distinct (keys (windows two_channel_index))
   \<and> steps_covered [''m00''] [(''m00'', [''s00''])] (windows two_channel_index)
   \<and> measurements two_channel_index ''cum_win_len''
       = Inr (Cumulative_window_length [(''m00'', [(''s00'', 13 / 2)])])
   \<and> measurements two_channel_index ''num_windows''
       = Inr (Number_of_windows [(''m00'', [(''s00'', 3)])])"
proof -
  have a: "axes_known two_channel_index [''m00''] [(''m00'', [''s00''])]"
    by (simp add: axes_known_def two_channel_index_def)
  have b: "events two_channel_index \<noteq> None" "stations two_channel_index \<noteq> None"
    by (simp_all add: two_channel_index_def)
  have c: "distinct (keys (windows two_channel_index))"
    by (simp add: two_channel_index_def keys_def)
  have d: "steps_covered [''m00''] [(''m00'', [''s00''])] (windows two_channel_index)"
    by (simp add: steps_covered_def two_channel_index_def keys_def)
  have s: "slice (windows two_channel_index) ''m00'' ''s00''
             = [(''e1'', [(''NZ.BFZ'',
                   [(''HHZ'', windows_of_length [3 / 2, 2]),
                    (''HHN'', windows_of_length [3])])])]"
    by (simp add: slice_Cons two_channel_index_def)
  from measurements_totals [OF a b c d] a b c d show ?thesis
    by (simp add: s window_seconds_def window_number_def windows_of_length_def)
qed

text \<open>
  With the metadata derived by \<open>_get_info\<close>, event \<open>e2\<close> holds windows for model \<open>m00\<close>
  but none for its step \<open>s01\<close>: \<open>measurements\<close> raises.
\<close>

theorem measurements_missing_step_raises:
  "get_info missing_step_windows
     = Inr (missing_step_windows\<lparr>stations := Some [], events := Some [], models := Some [''m00''],
              steps := Some [(''m00'', [''s00'', ''s01''])], iterations := 2\<rparr>)
   \<and> measurements (missing_step_windows\<lparr>stations := Some [], events := Some [],
         models := Some [''m00''], steps := Some [(''m00'', [''s00'', ''s01''])],
         iterations := 2\<rparr>) ''cum_win_len'' = Inl KeyError
   \<and> measurements (missing_step_windows\<lparr>stations := Some [], events := Some [],
         models := Some [''m00''], steps := Some [(''m00'', [''s00'', ''s01''])],
         iterations := 2\<rparr>) ''num_windows'' = Inl KeyError"
  by (simp add: get_info_def measurements_def get_str_def sort_by_model_of_def
      missing_step_windows_def missing_step_index_def
      Inspector_def Let_def dict_comp_def events_of_def getitem_def setitem_def keys_def)

section \<open>Properties of \<open>sum_misfits\<close>\<close>

lemma ev_msft_sum: "ev_msft by_sta = event_total by_sta"
proof -
  have "foldl (\<lambda>acc (sta, r). acc + msft r) a by_sta
        = a + sum_list (map (\<lambda>(sta, r). msft r) by_sta)" for a
  proof (induction by_sta arbitrary: a)
    case Nil
    show ?case by simp
  next
    case (Cons p by_sta)
    obtain sta r where p: "p = (sta, r)" by (cases p)
    show ?case by (simp add: p Cons.IH)
  qed
  then show ?thesis by (simp add: ev_msft_def event_total_def)
qed

lemma total_misfit_enumerate:
  fixes xs :: "(string, sta_misfits) dict"
  shows "foldl (\<lambda>(tot, e) (i, (event, by_sta)). (tot + event_total by_sta, Some i)) (t, e) (enumerate n xs)
   = (t + sum_list (map (\<lambda>(event, by_sta). event_total by_sta) xs),
      if xs = [] then e else Some (n + length xs - 1))"
proof (induction xs arbitrary: n t e)
  case Nil
  show ?case by simp
next
  case (Cons p xs)
  obtain event by_sta where p: "p = (event, by_sta)" by (cases p)
  let ?f = "\<lambda>(tot, e) (i, (event :: string, by_sta)). (tot + event_total by_sta, Some i)"
  have "foldl ?f (t, e) (enumerate n (p # xs))
        = foldl ?f (t + event_total by_sta, Some n) (enumerate (Suc n) xs)"
    by (simp add: p)
  also have "\<dots> = (t + event_total by_sta
            + sum_list (map (\<lambda>(event, by_sta). event_total by_sta) xs),
          if xs = [] then Some n else Some (Suc n + length xs - 1))"
    by (rule Cons.IH)
  also have "\<dots> = (t + sum_list (map (\<lambda>(event, by_sta). event_total by_sta) (p # xs)),
          if p # xs = [] then e else Some (n + length (p # xs) - 1))"
    by (simp add: p)
  finally show ?case .
qed

lemma total_misfit_nonempty:
  "by_event \<noteq> [] \<Longrightarrow>
   total_misfit by_event (0, e)
   = (sum_list (map (\<lambda>(event, by_sta). event_total by_sta) by_event),
      Some (length by_event - 1))"
  by (simp add: total_misfit_def ev_msft_sum total_misfit_enumerate)

lemma sum_step_mean:
  assumes "wf_shape (shape cmsft)" and "in_shape (shape cmsft) m s" and "by_event \<noteq> []"
  shows "sum_step m s by_event (cmsft, e)
         = Inr (upd2 cmsft m s (\<lambda>v. mean_misfit by_event), Some (length by_event - 1))"
proof -
  have "real (length by_event - 1 + 1) = real (length by_event)"
    using assms(3) by (cases by_event) simp_all
  then show ?thesis
    using total_misfit_nonempty [OF assms(3), of e]
      setitem2_upd2 [OF assms(1,2), of "mean_misfit by_event"]
    by (simp add: sum_step_def mean_misfit_def)
qed


lemma fst_foldl_pair:
  "fst (foldl (\<lambda>st q. (A q (fst st), B q)) st xs) = foldl (\<lambda>d q. A q d) (fst st) xs"
  by (induction xs arbitrary: st) simp_all

lemma fst_foldl_pair2:
  "fst (foldl (\<lambda>st p. foldl (\<lambda>st q. (A p q (fst st), B q)) st (snd p)) st w)
   = foldl (\<lambda>d p. foldl (\<lambda>d q. A p q d) d (snd p)) (fst st) w"
  by (induction w arbitrary: st) (simp_all add: fst_foldl_pair)

lemma views_nonemptyD:
  "views_nonempty v \<Longrightarrow> (m, by_step) \<in> set v \<Longrightarrow> (s, by_event) \<in> set by_step \<Longrightarrow>
   by_event \<noteq> []"
  unfolding views_nonempty_def
  apply (drule (1) bspec)
  apply simp
  apply (drule (1) bspec)
  apply simp
  done

lemma sum_loops:
  fixes v :: "(string, (string, (string, sta_misfits) dict) dict) dict"
  assumes wf: "wf_shape (shape v)" and ne: "views_nonempty v"
  shows "\<exists>e. for_loop (\<lambda>(model, by_step).
                  for_loop (\<lambda>(step, by_event). sum_step model step by_event) by_step)
                v (zeros v, None)
       = Inr (map (\<lambda>(m, by_step). (m, map (\<lambda>(s, by_event). (s, mean_misfit by_event)) by_step)) v,
              e)"
proof -
  let ?I = "\<lambda>st :: (string, (string, real) dict) dict \<times> nat option. shape (fst st) = shape v"
  let ?Fs = "\<lambda>m (q :: string \<times> (string, sta_misfits) dict)
               (st :: (string, (string, real) dict) dict \<times> nat option).
      (upd2 (fst st) m (fst q) (\<lambda>v. mean_misfit (snd q)), Some (length (snd q) - 1))"
  let ?Fm = "\<lambda>(p :: string \<times> (string, (string, sta_misfits) dict) dict)
               (st :: (string, (string, real) dict) dict \<times> nat option).
      foldl (\<lambda>st q. ?Fs (fst p) q st) st (snd p)"
  have step_level: "for_loop (\<lambda>(step, by_event). sum_step m step by_event) by_step st
        = Inr (foldl (\<lambda>st q. ?Fs m q st) st by_step)
        \<and> ?I (foldl (\<lambda>st q. ?Fs m q st) st by_step)"
    if mem: "(m, by_step) \<in> set v" and I: "?I st" for m by_step st
  proof (rule for_loop_foldl [where I = ?I, OF I])
    fix q :: "string \<times> (string, sta_misfits) dict"
      and st' :: "(string, (string, real) dict) dict \<times> nat option"
    assume q: "q \<in> set by_step" and I': "?I st'"
    then have "fst q \<in> set (keys by_step)" by (simp add: keys_def)
    with mem have ins: "in_shape (shape v) m (fst q)" by (rule in_shapeI)
    from q have "(fst q, snd q) \<in> set by_step" by simp
    with ne mem have nonempty: "snd q \<noteq> []" by (rule views_nonemptyD)
    have "sum_step m (fst q) (snd q) (fst st', snd st') = Inr (?Fs m q st')"
      using wf ins I' nonempty by (intro sum_step_mean) simp_all
    then show "(case q of (step, by_event) \<Rightarrow> sum_step m step by_event) st'
        = Inr (?Fs m q st') \<and> ?I (?Fs m q st')"
      using I' by (simp add: case_prod_beta)
  qed
  have "for_loop (\<lambda>(model, by_step).
           for_loop (\<lambda>(step, by_event). sum_step model step by_event) by_step)
         v (zeros v, None)
       = Inr (foldl (\<lambda>st p. ?Fm p st) (zeros v, None) v)
       \<and> ?I (foldl (\<lambda>st p. ?Fm p st) (zeros v, None) v)"
  proof (rule for_loop_foldl [where I = ?I])
    show "?I (zeros v, None)" by simp
  next
    fix p :: "string \<times> (string, (string, sta_misfits) dict) dict"
      and st' :: "(string, (string, real) dict) dict \<times> nat option"
    assume p: "p \<in> set v" and I': "?I st'"
    then have "(fst p, snd p) \<in> set v" by simp
    from step_level [OF this I']
    show "(case p of (model, by_step) \<Rightarrow>
             for_loop (\<lambda>(step, by_event). sum_step model step by_event) by_step) st'
          = Inr (?Fm p st') \<and> ?I (?Fm p st')"
      by (simp add: case_prod_beta)
  qed
  then have loop: "for_loop (\<lambda>(model, by_step).
           for_loop (\<lambda>(step, by_event). sum_step model step by_event) by_step)
         v (zeros v, None)
       = Inr (foldl (\<lambda>st p. ?Fm p st) (zeros v, None) v)"
    by (rule conjunct1)
  define X where "X = foldl (\<lambda>st p. ?Fm p st) (zeros v, None) v"
  have "fst X
      = foldl (\<lambda>d p. foldl (\<lambda>d q. upd2 d (fst p) (fst q) (\<lambda>v. mean_misfit (snd q))) d (snd p))
          (zeros v) v"
    unfolding X_def
    using fst_foldl_pair2 [of "\<lambda>p q d. upd2 d (fst p) (fst q) (\<lambda>v. mean_misfit (snd q))"
        "\<lambda>q. Some (length (snd q) - 1)" "(zeros v, None)" v]
    by simp
  also have "\<dots> = foldl (\<lambda>d (m, by_step).
                 foldl (\<lambda>d (s, x). upd2 d m s (\<lambda>v. mean_misfit x)) d by_step) (zeros v) v"
    by (simp add: case_prod_unfold)
  also have "\<dots> = map (\<lambda>(m, by_step). (m, map (\<lambda>(s, by_event). (s, mean_misfit by_event)) by_step)) v"
    using foldl_upd2_zeros [OF wf, of "\<lambda>x v. mean_misfit x" 0] by (simp add: zeros_def)
  finally have fst_eq: "fst X
      = map (\<lambda>(m, by_step). (m, map (\<lambda>(s, by_event). (s, mean_misfit by_event)) by_step)) v" .
  have "for_loop (\<lambda>(model, by_step).
                  for_loop (\<lambda>(step, by_event). sum_step model step by_event) by_step)
                v (zeros v, None)
       = Inr (map (\<lambda>(m, by_step). (m, map (\<lambda>(s, by_event). (s, mean_misfit by_event)) by_step)) v,
              snd X)"
    using loop fst_eq unfolding X_def [symmetric] by (simp add: prod_eq_iff)
  then show ?thesis by (rule exI)
qed

text \<open>The mean of every (model, step) of the model-major view that \<open>sort_by_model\<close> returns.\<close>

lemma sum_misfits_of_view:
  assumes "sort_by_model_of self (misfits self) = Inr v" and "views_nonempty v"
  shows "sum_misfits self
         = Inr (map (\<lambda>(m, by_step). (m, map (\<lambda>(s, by_event). (s, mean_misfit by_event)) by_step)) v)"
proof -
  have "wf_shape (shape v)" using assms(1) by (rule sort_by_model_of_wf)
  from sum_loops [OF this assms(2)] obtain e where
    "for_loop (\<lambda>(model, by_step).
                  for_loop (\<lambda>(step, by_event). sum_step model step by_event) by_step)
                v (zeros v, None)
       = Inr (map (\<lambda>(m, by_step). (m, map (\<lambda>(s, by_event). (s, mean_misfit by_event)) by_step)) v,
              e)" ..
  with assms(1) show ?thesis by (simp add: sum_misfits_def)
qed

text \<open>
  Claim C2, as the code has it.  With the axis metadata known (the models are \<open>ms\<close>
  and their steps \<open>st\<close>), every event that holds a listed model holding each step
  listed for it, and at least one event holding records for each listed (model, step),
  \<open>sum_misfits\<close> returns for every listed (model, step) the sum, over the events that
  hold records there, of the event's total misfit, divided by the number of those
  events.
\<close>

theorem sum_misfits_mean:
  assumes "axes_known self ms st" and "distinct (keys (misfits self))"
    and "steps_covered ms st (misfits self)"
    and "views_nonempty (reindex_by_model ms st (misfits self))"
  shows "sum_misfits self
         = Inr (map (\<lambda>m. (m, map (\<lambda>s. (s, mean_misfit (slice (misfits self) m s)))
                              (case map_of st m of None \<Rightarrow> [] | Some ss \<Rightarrow> ss))) ms)"
proof -
  have v: "sort_by_model_of self (misfits self) = Inr (reindex_by_model ms st (misfits self))"
    using assms(1-3) by (rule sort_by_model_of_reindex)
  have "sum_misfits self
         = Inr (map (\<lambda>(m, by_step). (m, map (\<lambda>(s, by_event). (s, mean_misfit by_event)) by_step))
                  (reindex_by_model ms st (misfits self)))"
    using v assms(4) by (rule sum_misfits_of_view)
  then show ?thesis by (simp add: reindex_by_model_def comp_def)
qed

theorem sum_misfits_mean_witness:
  "axes_known two_event_index [''m00''] [(''m00'', [''s00''])]
   \<and> distinct (keys (misfits two_event_index))
   \<and> steps_covered [''m00''] [(''m00'', [''s00''])] (misfits two_event_index)
   \<and> views_nonempty (reindex_by_model [''m00''] [(''m00'', [''s00''])] (misfits two_event_index))
   \<and> sum_misfits two_event_index = Inr [(''m00'', [(''s00'', (1 + 3) / 2)])]"
proof -
  have a: "axes_known two_event_index [''m00''] [(''m00'', [''s00''])]"
    by (simp add: axes_known_def two_event_index_def)
  have b: "distinct (keys (misfits two_event_index))"
    by (simp add: two_event_index_def keys_def)
  have c: "steps_covered [''m00''] [(''m00'', [''s00''])] (misfits two_event_index)"
    by (simp add: steps_covered_def two_event_index_def keys_def)
  have s: "slice (misfits two_event_index) ''m00'' ''s00''
             = [(''e1'', [(''NZ.BFZ'', \<lparr>msft = 1, nwin = 2\<rparr>)]),
                (''e2'', [(''NZ.BFZ'', \<lparr>msft = 1, nwin = 1\<rparr>), (''NZ.KNZ'', \<lparr>msft = 2, nwin = 4\<rparr>)])]"
    by (simp add: slice_Cons two_event_index_def)
  have d: "views_nonempty (reindex_by_model [''m00''] [(''m00'', [''s00''])] (misfits two_event_index))"
    by (simp add: views_nonempty_def reindex_by_model_def s)
  from sum_misfits_mean [OF a b c d] a b c d show ?thesis
    by (simp add: s mean_misfit_def event_total_def)
qed

text \<open>
  With the metadata derived by \<open>_get_info\<close>, event \<open>e2\<close> holds model \<open>m00\<close> without its
  step \<open>s01\<close>: \<open>sum_misfits\<close> raises, although event \<open>e1\<close> holds records for
  (\<open>m00\<close>, \<open>s01\<close>).
\<close>

theorem sum_misfits_missing_step_raises:
  "get_info missing_step_index
     = Inr (missing_step_index\<lparr>stations := Some [], events := Some [], models := Some [''m00''],
              steps := Some [(''m00'', [''s00'', ''s01''])], iterations := 2\<rparr>)
   \<and> sum_misfits (missing_step_index\<lparr>stations := Some [], events := Some [],
         models := Some [''m00''], steps := Some [(''m00'', [''s00'', ''s01''])],
         iterations := 2\<rparr>) = Inl KeyError"
  by (simp add: get_info_def sum_misfits_def sort_by_model_of_def missing_step_index_def
      Inspector_def Let_def dict_comp_def events_of_def getitem_def setitem_def keys_def)

section \<open>Properties of \<open>sort_by_window\<close>\<close>












section \<open>Properties of \<open>exclude_events\<close>\<close>

text \<open>
  Claim C4 at the input of the claim: with only the magnitude range \<open>[5.0, 9.0]\<close> and
  no bounding box, the second comparison reads \<open>coords[1]\<close> of the empty list at the
  first event, and \<open>exclude_events\<close> raises \<open>IndexError\<close> with nothing removed.
\<close>

theorem exclude_events_magnitude_only_raises:
  "exclude_events utc two_magnitude_index None None None (Some 5) (Some 9) None None
     = Inl (IndexError, two_magnitude_index)"
  by (simp add: exclude_events_def or_raise_def outside_def then_do_def outside_box_def
      less_coord_def greater_coord_def num_def index_def getitem_def keys_def
      two_magnitude_index_def)

text \<open>
  With a bounding box that holds every event, the same magnitude range removes the
  event of magnitude 4.5 with its misfit and window records, and keeps the event of
  magnitude 6.0 and the station.
\<close>

lemma exclude_events_magnitude_in_box:
  "exclude_events utc two_magnitude_index (Some [- 90, 90, - 180, 180]) None None
       (Some 5) (Some 9) None None
     = Inr (two_magnitude_index
         \<lparr>srcrcv := [(''NZ.BFZ'', [(''lat'', Num (- 40)), (''lon'', Num 176), (''elv_m'', Num 283),
                       (''utm_x'', Num 0), (''utm_y'', Num 0)]),
                     (''e2'', [(''lat'', Num (- 39)), (''lon'', Num 175), (''depth_m'', Num 10000),
                       (''time'', Str ''2019-01-01T00:00:00.000000Z''), (''mag'', Num 6),
                       (''utm_x'', Num 0), (''utm_y'', Num 0), (''NZ.BFZ'', Link 150 200)])],
          misfits := [(''e2'', [(''m00'', [(''s00'', [(''NZ.BFZ'', \<lparr>msft = 3, nwin = 1\<rparr>)])])])],
          windows := [(''e2'', [(''m00'', [(''s00'', [(''NZ.BFZ'', [(''HHZ'', one_window 3)])])])])],
          events := Some [''e2'']\<rparr>)"
  by (simp add: exclude_events_def or_raise_def outside_def then_do_def outside_box_def
      less_coord_def greater_coord_def num_def index_def getitem_def keys_def truthy_def
      delete_event_def delitem_def get_info_def get_str_def Let_def two_magnitude_index_def)


lemma outside_box_no_coords: "\<exists>err. outside_box entry [] = Inl err"
  by (cases "num entry ''lat''")
     (simp_all add: outside_box_def greater_coord_def then_do_def index_def)

lemma for_loop_raises:
  assumes "x \<in> set xs" and "\<And>s. \<exists>err. body x s = Inl err"
  shows "\<exists>err. for_loop body xs s = Inl err"
  using assms(1)
proof (induction xs arbitrary: s)
  case Nil
  then show ?case by simp
next
  case (Cons y ys)
  show ?case
  proof (cases "body y s")
    case (Inl err)
    then show ?thesis by simp
  next
    case (Inr s')
    show ?thesis
    proof (cases "y = x")
      case True
      with assms(2) [of s] Inr show ?thesis by simp
    next
      case False
      with Cons.prems have "x \<in> set ys" by simp
      from Cons.IH [OF this, of s'] Inr show ?thesis by simp
    qed
  qed
qed

text \<open>
  In general: with no bounding box, \<open>exclude_events\<close> raises and removes nothing as
  soon as \<open>srcrcv\<close> holds one event key, whatever the other criteria are.
\<close>

lemma exclude_events_no_box_raises:
  assumes "event \<in> set (keys (srcrcv self))" and "CHR ''.'' \<notin> set event"
    and "coords = None \<or> coords = Some []"
  shows "\<exists>err. exclude_events utc self coords depth_min depth_max mag_min mag_max starttime endtime
           = Inl (err, self)"
proof -
  have c: "(case coords of None \<Rightarrow> [] | Some c \<Rightarrow> c) = []" using assms(3) by auto
  from getitem_present [OF assms(1)] obtain entry where
    entry: "getitem (srcrcv self) event = Inr entry" by auto
  have "\<exists>err. outside utc self [] depth_min depth_max mag_min mag_max starttime endtime event s
          = Inl err" for s
    using outside_box_no_coords [of entry] assms(2) entry
    by (auto simp: outside_def then_do_def)
  with assms(1) have "\<exists>err. for_loop
      (outside utc self [] depth_min depth_max mag_min mag_max starttime endtime)
      (keys (srcrcv self)) [] = Inl err"
    by (rule for_loop_raises)
  then show ?thesis
    by (auto simp: exclude_events_def c or_raise_def)
qed

section \<open>Properties of \<open>sort_misfits_by_station\<close>\<close>

text \<open>
  Claim C6 on a state reached by \<open>append\<close>: one event, one model, one step and one
  station.  The read \<open>self.misfits[event][model][sta]\<close> looks the station id up among
  the steps and raises \<open>KeyError\<close>.
\<close>

theorem sort_misfits_by_station_raises:
  "sort_misfits_by_station example_state = Inl KeyError"
  by (simp add: sort_misfits_by_station_def then_do_def add_event_model_def add_event_step_def
      add_event_station_def misread_def getitem_def setitem_def example_state_def Let_def)


lemma misread_raises: "\<exists>err. misread by_step sta key = Inl err"
proof (cases "getitem by_step sta")
  case (Inl err)
  then show ?thesis by (simp add: misread_def then_do_def)
next
  case (Inr found)
  then show ?thesis
    by (cases "getitem found key") (simp_all add: misread_def then_do_def)
qed

lemma add_event_station_raises: "\<exists>err. add_event_station by_step p acc = Inl err"
proof -
  obtain sta r where p: "p = (sta, r)" by (cases p)
  from misread_raises [of by_step sta "''msft''"]
  obtain err where "(misread by_step sta ''msft'' :: py_error + real) = Inl err" ..
  then show ?thesis
    by (simp add: p add_event_station_def then_do_def Let_def)
qed

lemma add_event_step_raises:
  assumes "by_sta \<noteq> []"
  shows "\<exists>err. add_event_step model by_step (step, by_sta) st = Inl err"
proof -
  obtain acc last_step where st: "st = (acc, last_step)" by (cases st)
  from assms obtain p where p: "p \<in> set by_sta" by (cases by_sta) auto
  have loop: "\<exists>err. for_loop (add_event_station by_step) by_sta acc_step = Inl err"
    for acc_step
    using p add_event_station_raises by (rule for_loop_raises)
  show ?thesis
  proof (cases "getitem acc model")
    case (Inl err)
    then show ?thesis by (simp add: st add_event_step_def then_do_def)
  next
    case (Inr acc_model)
    let ?am = "if step \<notin> set (keys acc_model) then setitem acc_model step [] else acc_model"
    show ?thesis
    proof (cases "getitem ?am step")
      case (Inl err)
      with Inr show ?thesis by (simp add: st add_event_step_def then_do_def Let_def)
    next
      case acc_step: (Inr acc_step)
      from loop [of acc_step] obtain err where
        "for_loop (add_event_station by_step) by_sta acc_step = Inl err" ..
      with Inr acc_step show ?thesis
        by (simp add: st add_event_step_def then_do_def Let_def)
    qed
  qed
qed

lemma add_event_model_raises:
  assumes "(step, by_sta) \<in> set by_step" and "by_sta \<noteq> []"
  shows "\<exists>err. add_event_model (model, by_step) st = Inl err"
proof -
  obtain acc last_step where st: "st = (acc, last_step)" by (cases st)
  have "\<exists>err. for_loop (add_event_step model by_step) by_step st' = Inl err" for st'
    using assms(1) add_event_step_raises [OF assms(2)] by (rule for_loop_raises)
  then obtain err where "for_loop (add_event_step model by_step) by_step
      (if model \<notin> set (keys acc) then setitem acc model [] else acc, last_step) = Inl err"
    by blast
  then show ?thesis
    by (simp add: st add_event_model_def then_do_def Let_def)
qed

text \<open>
  In general: \<open>sort_misfits_by_station\<close> raises as soon as the Index holds the misfit
  of one station.
\<close>

lemma sort_misfits_by_station_never_returns:
  assumes "(event, by_model) \<in> set (misfits self)" and "(model, by_step) \<in> set by_model"
    and "(step, by_sta) \<in> set by_step" and "by_sta \<noteq> []"
  shows "\<exists>err. sort_misfits_by_station self = Inl err"
proof -
  have "\<exists>err. for_loop add_event_model by_model st = Inl err" for st
    using assms(2) add_event_model_raises [OF assms(3,4)] by (rule for_loop_raises)
  then have "\<exists>err. (case (event, by_model) of (event, by_model) \<Rightarrow>
       for_loop add_event_model by_model) st = Inl err" for st
    by simp
  with assms(1) have "\<exists>err. for_loop (\<lambda>(event, by_model). for_loop add_event_model by_model)
                (misfits self) ([], None) = Inl err"
    by (rule for_loop_raises)
  then show ?thesis
    by (auto simp: sort_misfits_by_station_def then_do_def)
qed

section \<open>Properties of \<open>save\<close> and \<open>load\<close>\<close>

lemma variables_eq: "variables = [''srcrcv'', ''misfits'', ''windows'']"
  by (simp add: variables_def attribute_names_def)

lemma map_of_insort_key:
  "map_of (insort_key fst (k, v) d) = (map_of d)(k \<mapsto> v)"
proof (induction d)
  case Nil
  show ?case by simp
next
  case (Cons a d)
  obtain k' v' where a: "a = (k', v')" by (cases a)
  show ?case
  proof (cases "k \<le> k'")
    case True
    then show ?thesis by (auto simp: a fun_eq_iff)
  next
    case False
    then have "k' \<noteq> k" by auto
    with False Cons.IH show ?thesis by (auto simp: a fun_eq_iff)
  qed
qed

lemma map_of_sort_key: "map_of (sort_key fst d) = map_of d"
proof (induction d)
  case Nil
  show ?case by simp
next
  case (Cons a d)
  obtain k v where a: "a = (k, v)" by (cases a)
  show ?case by (simp add: a map_of_insort_key Cons.IH)
qed

lemma map_of_json_dict: "map_of (json_dict f d) k = map_option f (map_of d k)"
proof -
  have "map_of (map (\<lambda>(k, v). (k, f v)) d) k = map_option f (map_of d k)"
    by (induction d) auto
  then show ?thesis by (simp add: json_dict_def map_of_sort_key)
qed

lemma keys_json_dict: "set (keys (json_dict f d)) = set (keys d)"
  by (force simp: json_dict_def keys_def)

lemma dict_eq_json:
  assumes "\<And>v. R (f v) v"
  shows "dict_eq R (json_dict f d) d"
  unfolding dict_eq_def
proof (intro conjI ballI)
  show "set (keys (json_dict f d)) = set (keys d)" by (rule keys_json_dict)
next
  fix k assume "k \<in> set (keys (json_dict f d))"
  show "rel_option R (map_of (json_dict f d) k) (map_of d k)"
    by (cases "map_of d k") (simp_all add: map_of_json_dict assms)
qed

lemma srcrcv_eq_json: "srcrcv_eq (json_srcrcv d) d"
  unfolding srcrcv_eq_def json_srcrcv_def
  by (intro dict_eq_json) simp

lemma misfits_eq_json: "misfits_eq (json_misfits d) d"
  unfolding misfits_eq_def json_misfits_def
  by (intro dict_eq_json) simp

lemma windows_eq_json: "windows_eq (json_windows d) d"
  unfolding windows_eq_def json_windows_def
  by (intro dict_eq_json) simp


lemma keys_sorted_json:
  assumes "\<And>v. P (f v)"
  shows "keys_sorted P (json_dict f d)"
proof -
  have "sorted (keys (json_dict f d))"
    unfolding json_dict_def keys_def by (rule sorted_sort_key)
  moreover have "list_all P (map snd (json_dict f d))"
    using assms by (auto simp: json_dict_def list_all_iff)
  ultimately show ?thesis by (simp add: keys_sorted_def)
qed

lemma srcrcv_sorted_json: "srcrcv_sorted (json_srcrcv d)"
  unfolding srcrcv_sorted_def json_srcrcv_def
  by (intro keys_sorted_json) simp

lemma misfits_sorted_json: "misfits_sorted (json_misfits d)"
  unfolding misfits_sorted_def json_misfits_def
  by (intro keys_sorted_json) simp

lemma windows_sorted_json: "windows_sorted (json_windows d)"
  unfolding windows_sorted_def json_windows_def
  by (intro keys_sorted_json) simp

lemma save_raises:
  "open_for_writing fs (os_path_join path (tag @ ''.json'')) = Some err \<Longrightarrow>
   save self tag path fs = Inl err"
  by (simp add: save_def Let_def)

lemma save_Inr:
  assumes "save self tag path fs = Inr fs'"
  shows "fs' = fs\<lparr>files := (files fs)(os_path_join path (tag @ ''.json'') \<mapsto>
               \<lparr>file_srcrcv = Some (json_srcrcv (srcrcv self)),
                file_misfits = Some (json_misfits (misfits self)),
                file_windows = Some (json_windows (windows self))\<rparr>)\<rparr>"
  using assms
  by (auto simp: save_def Let_def variables_eq split: option.splits)

lemma load_save:
  assumes "\<not> endswith tag ''.json''" and "save self tag path fs = Inr fs'"
  shows "load fresh tag path fs' =
           Inr (1, fresh\<lparr>srcrcv := json_srcrcv (srcrcv self),
                         misfits := json_misfits (misfits self),
                         windows := json_windows (windows self)\<rparr>)"
  using assms(1)
  by (simp add: save_Inr [OF assms(2)] load_def Let_def variables_eq set_variable_def)

lemma json_dict_Nil_iff: "json_dict f d = [] \<longleftrightarrow> d = []"
proof -
  have "length (json_dict f d) = length d" by (simp add: json_dict_def)
  then show ?thesis by (metis length_0_conv)
qed

lemma get_info_fixed:
  assumes "get_info self = Inr self'"
  shows "get_info self' = Inr self'" and "get_str self' = Inr ()"
  using assms
  by (auto simp: get_info_def get_str_def Let_def split: list.splits)

lemma get_info_returns:
  assumes "misfits self \<noteq> []"
  shows "\<exists>self'. get_info self = Inr self' \<and> srcrcv self' = srcrcv self
           \<and> misfits self' = misfits self \<and> windows self' = windows self"
  using assms
  by (auto simp: get_info_def Let_def split: list.splits)

lemma Inspector_tag_save:
  assumes "\<not> endswith tag ''.json''" and "save self tag ''./'' fs = Inr fs'"
    and "misfits self \<noteq> []"
  shows "\<exists>self'. Inspector_tag utm_zone tag fs' = Inr self'
           \<and> srcrcv self' = json_srcrcv (srcrcv self)
           \<and> misfits self' = json_misfits (misfits self)
           \<and> windows self' = json_windows (windows self)
           \<and> get_info self' = Inr self'"
proof -
  define loaded where
    "loaded = (Inspector utm_zone)\<lparr>srcrcv := json_srcrcv (srcrcv self),
                 misfits := json_misfits (misfits self),
                 windows := json_windows (windows self)\<rparr>"
  have l: "load (Inspector utm_zone) tag ''./'' fs' = Inr (1, loaded)"
    unfolding loaded_def by (rule load_save [OF assms(1,2)])
  have "misfits loaded \<noteq> []"
    using assms(3) by (simp add: loaded_def json_misfits_def json_dict_Nil_iff)
  from get_info_returns [OF this] obtain self' where
    g: "get_info loaded = Inr self'" and
    s: "srcrcv self' = srcrcv loaded" "misfits self' = misfits loaded"
       "windows self' = windows loaded"
    by blast
  have "Inspector_tag utm_zone tag fs' = Inr self'"
    by (simp add: Inspector_tag_def l g get_info_fixed(2) [OF g] or_raise_def)
  moreover have "get_info self' = Inr self'" by (rule get_info_fixed(1) [OF g])
  ultimately show ?thesis using s by (simp add: loaded_def)
qed

text \<open>
  Claim C3, as the code has it.  For every Index, every path and every tag that does
  not end in \<open>.json\<close>, when \<open>save(tag, path)\<close> returns (the file could be opened for
  writing), \<open>load(tag, path)\<close> on any other Inspector returns 1 and leaves there the
  three mappings of the saved Index with their keys sorted at every level: each has
  the same keys and the same leaf values as the saved one at every level, and the axis
  metadata of the loading Inspector is as it was, since it is not in the file.  When the
  misfits of the saved Index hold at least one event and the path is the default
  one, \<open>Inspector(tag=tag)\<close> returns with these mappings and with the metadata that
  \<open>_get_info\<close> derives from them.
\<close>

theorem save_load_round_trip:
  assumes "\<not> endswith tag ''.json''" and "save self tag path fs = Inr fs'"
  shows "load fresh tag path fs' =
           Inr (1, fresh\<lparr>srcrcv := json_srcrcv (srcrcv self),
                         misfits := json_misfits (misfits self),
                         windows := json_windows (windows self)\<rparr>)
       \<and> srcrcv_eq (json_srcrcv (srcrcv self)) (srcrcv self)
       \<and> misfits_eq (json_misfits (misfits self)) (misfits self)
       \<and> windows_eq (json_windows (windows self)) (windows self)
       \<and> srcrcv_sorted (json_srcrcv (srcrcv self))
       \<and> misfits_sorted (json_misfits (misfits self))
       \<and> windows_sorted (json_windows (windows self))
       \<and> (misfits self \<noteq> [] \<and> path = ''./'' \<longrightarrow>
            (case Inspector_tag utm_zone tag fs' of
               Inl raised \<Rightarrow> False
             | Inr self' \<Rightarrow>
                 srcrcv self' = json_srcrcv (srcrcv self)
                 \<and> misfits self' = json_misfits (misfits self)
                 \<and> windows self' = json_windows (windows self)
                 \<and> get_info self' = Inr self'))"
proof -
  have "case Inspector_tag utm_zone tag fs' of
               Inl raised \<Rightarrow> False
             | Inr self' \<Rightarrow>
                 srcrcv self' = json_srcrcv (srcrcv self)
                 \<and> misfits self' = json_misfits (misfits self)
                 \<and> windows self' = json_windows (windows self)
                 \<and> get_info self' = Inr self'"
    if ne: "misfits self \<noteq> []" and p: "path = ''./''"
  proof -
    have "save self tag ''./'' fs = Inr fs'" using assms(2) p by simp
    from Inspector_tag_save [OF assms(1) this ne] obtain self' where
      "Inspector_tag utm_zone tag fs' = Inr self'"
      "srcrcv self' = json_srcrcv (srcrcv self)"
      "misfits self' = json_misfits (misfits self)"
      "windows self' = json_windows (windows self)"
      "get_info self' = Inr self'"
      by blast
    then show ?thesis by simp
  qed
  then show ?thesis
    by (simp add: load_save [OF assms] srcrcv_eq_json misfits_eq_json windows_eq_json
        srcrcv_sorted_json misfits_sorted_json windows_sorted_json)
qed

theorem save_load_round_trip_witness:
  "\<not> endswith ''run'' ''.json''
   \<and> (case save example_state ''run'' ''./'' empty_fs of
        Inl raised \<Rightarrow> False
      | Inr fs' \<Rightarrow>
          (case load (Inspector (-60)) ''run'' ''./'' fs' of
             Inl raised \<Rightarrow> False
           | Inr (status, self') \<Rightarrow>
               status = 1
               \<and> srcrcv_eq (srcrcv self') (srcrcv example_state)
               \<and> misfits_eq (misfits self') (misfits example_state)
               \<and> windows_eq (windows self') (windows example_state)
               \<and> srcrcv_sorted (srcrcv self') \<and> misfits_sorted (misfits self')
               \<and> windows_sorted (windows self')
               \<and> stations self' = None \<and> events self' = None \<and> models self' = None
               \<and> steps self' = None \<and> iterations self' = 0)
          \<and> (case Inspector_tag (-60) ''run'' fs' of
               Inl raised \<Rightarrow> False
             | Inr self' \<Rightarrow>
                 misfits_eq (misfits self') (misfits example_state)
                 \<and> get_info self' = Inr self'))"
proof -
  have h: "\<not> endswith ''run'' ''.json''" by (simp add: endswith_def)
  obtain fs' where s: "save example_state ''run'' ''./'' empty_fs = Inr fs'"
    by (simp add: save_def Let_def empty_fs_def)
  have ne: "misfits example_state \<noteq> []" by (simp add: example_state_def)
  from save_load_round_trip [OF h s, of "Inspector (-60)" "-60"] h ne
  show ?thesis
    by (simp add: s Inspector_def split: sum.splits)
qed

text \<open>
  A tag that ends in \<open>.json\<close> does not come back: \<open>save('run.json')\<close> writes
  \<open>./run.json.json\<close>, \<open>load('run.json')\<close> strips the suffix and looks for \<open>./run.json\<close>,
  so with no such file it returns 0 and the new Inspector stays empty.
\<close>

theorem save_load_json_tag_not_found:
  "(case save example_state ''run.json'' ''./'' empty_fs of
      Inl raised \<Rightarrow> False
    | Inr fs' \<Rightarrow> load (Inspector (-60)) ''run.json'' ''./'' fs' = Inr (0, Inspector (-60)))
   \<and> \<not> misfits_eq (misfits (Inspector (-60))) (misfits example_state)
   \<and> misfits example_state \<noteq> []"
  by (simp add: load_def save_def Let_def endswith_def os_path_join_def Inspector_def
      example_state_def misfits_eq_def dict_eq_def keys_def empty_fs_def)

end
